theory Spec2Isabelle
  imports Complex_Main
begin

text \<open>
  EER Studio keeps the text of a diagram and the diagram itself in step. This development
  embeds the two functions that do it, \<open>parseCode\<close> (text to nodes and links) and
  \<open>updateCodePosition\<close> (a moved node back to its line of text), with the pattern
  \<open>COORD_REGEX\<close> they share, and proves the properties stated of them.
\<close>

section \<open>JavaScript strings\<close>

text \<open>
  A JavaScript string is a sequence of UTF-16 code units. The development models the
  code units below 256 (ASCII and Latin-1), one \<^typ>\<open>char\<close> per code unit; a
  \<^typ>\<open>char\<close> is never a byte of a UTF-8 encoding here. A value that may be
  \<open>undefined\<close> at run time (an array read past the end, and what is computed
  from it) is a \<^typ>\<open>string option\<close>, with \<^const>\<open>None\<close> for \<open>undefined\<close>.
\<close>

type_synonym jsval = "string option"

definition isSpace :: "char \<Rightarrow> bool" where
  \<comment> \<open>the class \<open>\s\<close>, which is also what \<open>trim\<close> strips: TAB, LF, VT, FF, CR, SP, NBSP\<close>
  "isSpace c = (c \<in> set [CHR 0x09, CHR 0x0A, CHR 0x0B, CHR 0x0C, CHR 0x0D, CHR 0x20, CHR 0xA0])"

definition isDigit :: "char \<Rightarrow> bool" where
  \<comment> \<open>the class \<open>\d\<close>\<close>
  "isDigit c = (c \<in> set ''0123456789'')"

definition trimStart :: "string \<Rightarrow> string" where
  "trimStart s = dropWhile isSpace s"

definition trimEnd :: "string \<Rightarrow> string" where
  "trimEnd s = rev (dropWhile isSpace (rev s))"

definition trim :: "string \<Rightarrow> string" where
  "trim s = trimEnd (trimStart s)"

definition startsWith :: "string \<Rightarrow> string \<Rightarrow> bool" where
  "startsWith s p = (take (length p) s = p)"

fun includesStr :: "string \<Rightarrow> string \<Rightarrow> bool" where
  "includesStr [] p = (p = [])"
| "includesStr (c # cs) p = (startsWith (c # cs) p \<or> includesStr cs p)"

definition lowerChar :: "char \<Rightarrow> char" where
  \<comment> \<open>\<open>toLowerCase\<close> on one code unit below 256: A-Z, and the Latin-1 capitals but the
      multiplication sign\<close>
  "lowerChar c =
     (let n = (of_char c :: nat)
      in if (65 \<le> n \<and> n \<le> 90) \<or> (192 \<le> n \<and> n \<le> 222 \<and> n \<noteq> 215)
         then char_of (n + 32) else c)"

definition toLowerCase :: "string \<Rightarrow> string" where
  "toLowerCase s = map lowerChar s"

text \<open>\<open>s.split('\n')\<close> and \<open>lines.join('\n')\<close>.\<close>

fun splitLines :: "string \<Rightarrow> string list" where
  "splitLines [] = [[]]"
| "splitLines (c # cs) =
     (if c = CHR 0x0A then [] # splitLines cs
      else (case splitLines cs of [] \<Rightarrow> [[c]] | l # ls \<Rightarrow> (c # l) # ls))"

fun joinLines :: "string list \<Rightarrow> string" where
  "joinLines [] = []"
| "joinLines [l] = l"
| "joinLines (l # ls) = l @ CHR 0x0A # joinLines ls"

text \<open>
  \<open>s.split(/\s+/)\<close>: the pieces between the maximal runs of white space. A string that
  starts (ends) with white space has an empty first (last) piece, and the empty string
  has the one piece \<open>""\<close>.
\<close>

function splitSpaces :: "string \<Rightarrow> string list" where
  "splitSpaces s =
     (case dropWhile (\<lambda>c. \<not> isSpace c) s of
        [] \<Rightarrow> [s]
      | c # r \<Rightarrow> takeWhile (\<lambda>c. \<not> isSpace c) s # splitSpaces (dropWhile isSpace r))"
  by pat_completeness auto
termination
proof (relation "measure length")
  show "wf (measure length)" by simp
next
  fix s :: string and c r
  assume h: "dropWhile (\<lambda>c. \<not> isSpace c) s = c # r"
  have "length (dropWhile isSpace r) \<le> length r"
    by (rule length_dropWhile_le)
  moreover have "length (c # r) \<le> length s"
    using length_dropWhile_le [of "\<lambda>c. \<not> isSpace c" s] h by simp
  ultimately show "(dropWhile isSpace r, s) \<in> measure length" by simp
qed

declare splitSpaces.simps [simp del]

definition elemAt :: "'a list \<Rightarrow> nat \<Rightarrow> 'a option" where
  \<comment> \<open>the array read \<open>xs[i]\<close>, \<open>undefined\<close> past the end\<close>
  "elemAt xs i = (if i < length xs then Some (xs ! i) else None)"

definition truthy :: "jsval \<Rightarrow> bool" where
  \<comment> \<open>a string or \<open>undefined\<close> in a condition: \<open>undefined\<close> and \<open>""\<close> are falsy\<close>
  "truthy v = (case v of None \<Rightarrow> False | Some s \<Rightarrow> s \<noteq> [])"

definition interpolate :: "jsval \<Rightarrow> string" where
  \<comment> \<open>a value inside a template literal\<close>
  "interpolate v = (case v of None \<Rightarrow> ''undefined'' | Some s \<Rightarrow> s)"

section \<open>Numbers\<close>

text \<open>
  The coordinates are JavaScript numbers, that is doubles. The development takes them as
  mathematical integers (what \<open>parseInt\<close> and \<open>Math.round\<close> return) and reals (the
  position that a drag hands to the write-back), and prints an integer in plain decimal.
  This is what the code computes for integers below \<open>2^53\<close> in magnitude, where doubles
  are exact; from \<open>10^21\<close> on JavaScript prints a number with an exponent, and \<open>NaN\<close>
  and the infinities are no reals.
\<close>

definition digitChar :: "nat \<Rightarrow> char" where
  "digitChar d = ''0123456789'' ! d"

fun digitsOf :: "nat \<Rightarrow> string" where
  "digitsOf n = (if n < 10 then [digitChar n] else digitsOf (n div 10) @ [digitChar (n mod 10)])"

declare digitsOf.simps [simp del]

definition numberToString :: "int \<Rightarrow> string" where
  \<comment> \<open>an integer inside a template literal: plain decimal, which is what the code prints
      below \<open>2^53\<close> in magnitude (and for every array index); a statement that rests on the
      digits of a coordinate bounds it so\<close>
  "numberToString k = (if k < 0 then CHR ''-'' # digitsOf (nat (- k)) else digitsOf (nat k))"

definition digitValue :: "char \<Rightarrow> nat" where
  "digitValue c = of_char c - 48"

definition parseDigits :: "string \<Rightarrow> nat" where
  "parseDigits s = foldl (\<lambda>a c. 10 * a + digitValue c) 0 s"

definition parseInt :: "string \<Rightarrow> int" where
  \<comment> \<open>\<open>parseInt(s, 10)\<close> on a capture of \<open>-?\d+\<close>: the integer written, which is what the
      code returns below \<open>2^53\<close> in magnitude (beyond, the nearest double)\<close>
  "parseInt s = (case s of c # r \<Rightarrow> if c = CHR ''-'' then - int (parseDigits r) else int (parseDigits s)
                 | [] \<Rightarrow> 0)"

definition mathRound :: "real \<Rightarrow> int" where
  \<comment> \<open>\<open>Math.round\<close>: the nearest integer, a tie going up\<close>
  "mathRound v = \<lfloor>v + 1 / 2\<rfloor>"

section \<open>The coordinate pattern\<close>

text \<open>
  \<open>COORD_REGEX = /\(\s*(-?\d+),\s*(-?\d+)\s*\)/\<close>. The classes of white space, the minus
  sign, the digits, the comma and the parentheses are disjoint, so that the greedy
  quantifiers never backtrack and the pattern is matched from left to right.
\<close>

definition matchNumber :: "string \<Rightarrow> (string \<times> string) option" where
  \<comment> \<open>\<open>(-?\d+)\<close> at the head of the string: the capture and what follows it\<close>
  "matchNumber s =
     (let (sign, r) = (case s of c # r' \<Rightarrow> if c = CHR ''-'' then ([c], r') else ([], s) | [] \<Rightarrow> ([], s));
          ds = takeWhile isDigit r
      in if ds = [] then None else Some (sign @ ds, dropWhile isDigit r))"

definition matchCoordAt :: "string \<Rightarrow> ((string \<times> string) \<times> string) option" where
  \<comment> \<open>the pattern at the head of the string: the two captures and what follows the match\<close>
  "matchCoordAt s =
     (case s of
        [] \<Rightarrow> None
      | c # r0 \<Rightarrow>
          if c \<noteq> CHR ''('' then None
          else (case matchNumber (dropWhile isSpace r0) of
                  None \<Rightarrow> None
                | Some (c1, r1) \<Rightarrow>
                    (case r1 of
                       [] \<Rightarrow> None
                     | comma # r2 \<Rightarrow>
                         if comma \<noteq> CHR '','' then None
                         else (case matchNumber (dropWhile isSpace r2) of
                                 None \<Rightarrow> None
                               | Some (c2, r3) \<Rightarrow>
                                   (case dropWhile isSpace r3 of
                                      [] \<Rightarrow> None
                                    | close # rest \<Rightarrow>
                                        if close = CHR '')'' then Some ((c1, c2), rest) else None)))))"

fun findCoord :: "string \<Rightarrow> (string \<times> (string \<times> string) \<times> string) option" where
  \<comment> \<open>the leftmost match: the text before it, the captures, the text after it\<close>
  "findCoord [] = None"
| "findCoord (c # cs) =
     (case matchCoordAt (c # cs) of
        Some (caps, rest) \<Rightarrow> Some ([], caps, rest)
      | None \<Rightarrow> map_option (\<lambda>(before, caps, rest). (c # before, caps, rest)) (findCoord cs))"

definition testCoord :: "string \<Rightarrow> bool" where
  \<comment> \<open>\<open>COORD_REGEX.test(s)\<close>\<close>
  "testCoord s = (findCoord s \<noteq> None)"

definition replaceCoord :: "string \<Rightarrow> string" where
  \<comment> \<open>\<open>s.replace(COORD_REGEX, '')\<close>: the first match removed\<close>
  "replaceCoord s = (case findCoord s of None \<Rightarrow> s | Some (before, caps, rest) \<Rightarrow> before @ rest)"

section \<open>The diagram model\<close>

datatype NodeType =
  entity | weak_entity | relationship | identifying_relationship | attribute | key_attribute
  | multivalued_attribute | derived_attribute | specialization | union_node

datatype LinkStyle = solid | double

text \<open>
  \<open>NodeData\<close> and \<open>LinkData\<close>. The fields carry a prefix, since \<open>id\<close>, \<open>x\<close> and \<open>y\<close>
  are not available as field names. \<open>id\<close> and \<open>label\<close> are declared as strings, and the
  parser can store \<open>undefined\<close> in them.
\<close>

record NodeData =
  node_id :: jsval
  node_type :: NodeType
  node_label :: jsval
  node_x :: int
  node_y :: int
  node_meta :: jsval
  node_lineIndex :: int

record LinkData =
  link_source :: jsval
  link_target :: jsval
  link_label :: string
  link_style :: LinkStyle

section \<open>The parser\<close>

text \<open>
  The state of one run of \<open>parseCode\<close>: the two arrays, the set of the ids given so far,
  and the angle of the spiral. The angle is a double that starts at 0 and grows by 0.6 at
  each call of \<open>getDefaultPos\<close>, so that it is a function of the number of calls; the state
  keeps that number. The point that the \<open>k\<close>-th call returns (built from \<open>Math.cos\<close>,
  \<open>Math.sin\<close>, \<open>Math.round\<close> and double arithmetic) is the value \<open>sp k\<close> of a
  parameter \<open>sp\<close> of the parser; \<open>idealSpiral\<close> is that point computed over the reals.
\<close>

record ParseState =
  newNodes :: "NodeData list"
  newLinks :: "LinkData list"
  existingIds :: "jsval set"
  angle :: nat

type_synonym spiral = "nat \<Rightarrow> int \<times> int"

definition idealSpiral :: spiral where
  \<comment> \<open>the spiral of \<open>getDefaultPos\<close> over the reals: centre (400, 300), radius 250\<close>
  "idealSpiral k =
     (let a = 0.6 * real k; r = 250 + a * 15
      in (mathRound (400 + cos a * r), mathRound (300 + sin a * r)))"

definition initialState :: ParseState where
  "initialState = \<lparr>newNodes = [], newLinks = [], existingIds = {}, angle = 0\<rparr>"

definition getDefaultPos :: "spiral \<Rightarrow> ParseState \<Rightarrow> (int \<times> int) \<times> ParseState" where
  "getDefaultPos sp st = (let a = angle st + 1 in (sp a, st\<lparr>angle := a\<rparr>))"

definition finalPos :: "spiral \<Rightarrow> (int \<times> int) option \<Rightarrow> ParseState \<Rightarrow> (int \<times> int) \<times> ParseState" where
  \<comment> \<open>\<open>finalX\<close>, \<open>finalY\<close>: the coordinates of the line, else the next point of the spiral\<close>
  "finalPos sp xy st = (case xy of Some p \<Rightarrow> (p, st) | None \<Rightarrow> getDefaultPos sp st)"

definition nodeCommands :: "string list" where
  "nodeCommands = [''ent'', ''weak_ent'', ''rel'', ''ident_rel'', ''att'', ''key_att'',
     ''derived_att'', ''multivalued_attribute'']"

definition attributeCommands :: "string list" where
  "attributeCommands = [''att'', ''key_att'', ''derived_att'', ''multivalued_attribute'']"

definition structuralCommands :: "string list" where
  "structuralCommands = [''spec'', ''union'']"

definition nodeTypeOf :: "string \<Rightarrow> NodeType" where
  \<comment> \<open>\<open>type\<close>: \<open>entity\<close> unless one of the seven tests on the command assigns another\<close>
  "nodeTypeOf command =
     (if command = ''weak_ent'' then weak_entity
      else if command = ''rel'' then relationship
      else if command = ''ident_rel'' then identifying_relationship
      else if command = ''att'' then attribute
      else if command = ''key_att'' then key_attribute
      else if command = ''derived_att'' then derived_attribute
      else if command = ''multivalued_attribute'' then multivalued_attribute
      else entity)"

definition lineCoords :: "string \<Rightarrow> (int \<times> int) option" where
  \<comment> \<open>\<open>x\<close> and \<open>y\<close> of a trimmed line, both \<open>null\<close> without a match\<close>
  "lineCoords cleanLine =
     (case findCoord cleanLine of
        None \<Rightarrow> None
      | Some (before, (c1, c2), rest) \<Rightarrow> Some (parseInt c1, parseInt c2))"

definition lineParts :: "string \<Rightarrow> string list" where
  \<comment> \<open>\<open>parts\<close> of a trimmed line\<close>
  "lineParts cleanLine = splitSpaces (trim (replaceCoord cleanLine))"

definition commandOf :: "string \<Rightarrow> string" where
  \<comment> \<open>\<open>command\<close> of a raw line: the first token of the line without its coordinates, in
      lower case\<close>
  "commandOf line = toLowerCase (interpolate (elemAt (lineParts (trim line)) 0))"

fun matchLabel :: "string \<Rightarrow> string option" where
  \<comment> \<open>the capture of the leftmost match of \<open>/"([^"]+)"/\<close>: a quote, the longest run of
      other characters, not empty, and a quote\<close>
  "matchLabel [] = None"
| "matchLabel (c # cs) =
     (if c = CHR 0x22 \<and> takeWhile (\<lambda>d. d \<noteq> CHR 0x22) cs \<noteq> []
         \<and> dropWhile (\<lambda>d. d \<noteq> CHR 0x22) cs \<noteq> []
      then Some (takeWhile (\<lambda>d. d \<noteq> CHR 0x22) cs)
      else matchLabel cs)"

definition declareNode :: "spiral \<Rightarrow> ParseState \<Rightarrow> nat \<Rightarrow> (int \<times> int) option \<Rightarrow> string list \<Rightarrow> string \<Rightarrow> ParseState" where
  \<comment> \<open>the branch of the eight node commands\<close>
  "declareNode sp st index xy parts command =
     (let label = elemAt parts 1;
          isAttribute = (command \<in> set attributeCommands);
          ident = (if isAttribute \<or> label \<in> existingIds st
                   then Some (interpolate label @ ''_'' @ numberToString (int index))
                   else label);
          st1 = st\<lparr>existingIds := insert ident (existingIds st)\<rparr>;
          (pos, st2) = finalPos sp xy st1;
          st3 = st2\<lparr>newNodes := newNodes st2 @
                  [\<lparr>node_id = ident, node_type = nodeTypeOf command, node_label = label,
                    node_x = fst pos, node_y = snd pos, node_meta = None,
                    node_lineIndex = int index\<rparr>]\<rparr>
      in if elemAt parts 2 = Some ''->'' \<and> truthy (elemAt parts 3)
         then st3\<lparr>newLinks := newLinks st3 @
                [\<lparr>link_source = elemAt parts 3, link_target = ident, link_label = [],
                  link_style = solid\<rparr>]\<rparr>
         else st3)"

definition declareSpec :: "spiral \<Rightarrow> ParseState \<Rightarrow> nat \<Rightarrow> (int \<times> int) option \<Rightarrow> string list \<Rightarrow> string \<Rightarrow> ParseState" where
  \<comment> \<open>the branch of \<open>spec\<close> and \<open>union\<close>\<close>
  "declareSpec sp st index xy parts command =
     (let meta = (if truthy (elemAt parts 1) then interpolate (elemAt parts 1)
                  else if command = ''union'' then ''u'' else ''d'');
          ident0 = (if truthy (elemAt parts 1) then interpolate (elemAt parts 1)
                    else ''spec_'' @ numberToString (int index));
          ident = (if Some ident0 \<in> existingIds st
                   then ident0 @ ''_'' @ numberToString (int index) else ident0);
          st1 = st\<lparr>existingIds := insert (Some ident) (existingIds st)\<rparr>;
          (pos, st2) = finalPos sp xy st1;
          st3 = st2\<lparr>newNodes := newNodes st2 @
                  [\<lparr>node_id = Some ident,
                    node_type = (if command = ''union'' then union_node else specialization),
                    node_label = Some meta, node_x = fst pos, node_y = snd pos,
                    node_meta = Some meta, node_lineIndex = int index\<rparr>]\<rparr>
      in if elemAt parts 2 = Some ''->'' \<and> truthy (elemAt parts 3)
         then st3\<lparr>newLinks := newLinks st3 @
                [\<lparr>link_source = elemAt parts 3, link_target = Some ident, link_label = [],
                  link_style = double\<rparr>]\<rparr>
         else st3)"

definition declareLink :: "ParseState \<Rightarrow> string \<Rightarrow> string list \<Rightarrow> ParseState" where
  \<comment> \<open>the branch of \<open>link\<close>\<close>
  "declareLink st lineWithoutCoords parts =
     (let source = elemAt parts 1;
          target = elemAt parts 2;
          label = (case matchLabel lineWithoutCoords of None \<Rightarrow> [] | Some l \<Rightarrow> l);
          style = (if includesStr lineWithoutCoords ''[total]'' \<or> includesStr lineWithoutCoords ''[double]''
                   then double else solid)
      in if truthy source \<and> truthy target
         then st\<lparr>newLinks := newLinks st @
                [\<lparr>link_source = source, link_target = target, link_label = label,
                  link_style = style\<rparr>]\<rparr>
         else st)"

definition parseLine :: "spiral \<Rightarrow> ParseState \<Rightarrow> string \<Rightarrow> nat \<Rightarrow> ParseState" where
  \<comment> \<open>the callback of \<open>lines.forEach\<close>\<close>
  "parseLine sp st line index =
     (let cleanLine = trim line
      in if cleanLine = [] \<or> startsWith cleanLine ''//'' then st
         else
           let xy = lineCoords cleanLine;
               lineWithoutCoords = trim (replaceCoord cleanLine);
               parts = lineParts cleanLine;
               command = commandOf line
           in if command \<in> set nodeCommands then declareNode sp st index xy parts command
              else if command \<in> set structuralCommands then declareSpec sp st index xy parts command
              else if command = ''link'' then declareLink st lineWithoutCoords parts
              else st)"

fun forEachLine :: "spiral \<Rightarrow> ParseState \<Rightarrow> string list \<Rightarrow> nat \<Rightarrow> ParseState" where
  \<comment> \<open>\<open>lines.forEach\<close>, from the index given\<close>
  "forEachLine sp st [] index = st"
| "forEachLine sp st (line # rest) index = forEachLine sp (parseLine sp st line index) rest (Suc index)"

record DiagramModel =
  nodes :: "NodeData list"
  links :: "LinkData list"

definition parseCode :: "spiral \<Rightarrow> string \<Rightarrow> DiagramModel" where
  "parseCode sp code =
     (let st = forEachLine sp initialState (splitLines code) 0
      in \<lparr>nodes = newNodes st, links = newLinks st\<rparr>)"

section \<open>The editor and the write-back\<close>

text \<open>
  The state of the component that the write-back reads and writes: the text (\<open>code\<close>, which
  \<open>codeRef.current\<close> follows) and the model on display (\<open>nodes\<close>, \<open>links\<close>).
\<close>

record Editor =
  ed_code :: string
  ed_nodes :: "NodeData list"
  ed_links :: "LinkData list"

definition reparse :: "spiral \<Rightarrow> Editor \<Rightarrow> Editor" where
  \<comment> \<open>the effect that runs once the text has settled: \<open>setNodes\<close>, \<open>setLinks\<close>\<close>
  "reparse sp ed =
     (let m = parseCode sp (ed_code ed) in ed\<lparr>ed_nodes := nodes m, ed_links := links m\<rparr>)"

definition coordSuffix :: "real \<Rightarrow> real \<Rightarrow> string" where
  "coordSuffix newX newY =
     '' ('' @ numberToString (mathRound newX) @ '', '' @ numberToString (mathRound newY) @ '')''"

definition rewriteLine :: "string \<Rightarrow> real \<Rightarrow> real \<Rightarrow> string" where
  \<comment> \<open>\<open>newLine\<close> from \<open>lines[lineIndex]\<close>\<close>
  "rewriteLine line newX newY =
     trimEnd (if testCoord line then replaceCoord line else line) @ coordSuffix newX newY"

definition updateCodePosition :: "Editor \<Rightarrow> jsval \<Rightarrow> real \<Rightarrow> real \<Rightarrow> Editor" where
  "updateCodePosition ed nodeId newX newY =
     (case find (\<lambda>n. node_id n = nodeId) (ed_nodes ed) of
        None \<Rightarrow> ed
      | Some node \<Rightarrow>
          let lines = splitLines (ed_code ed);
              lineIndex = node_lineIndex node
          in if 0 \<le> lineIndex \<and> lineIndex < int (length lines)
             then ed\<lparr>ed_code :=
                    joinLines (lines[nat lineIndex := rewriteLine (lines ! nat lineIndex) newX newY])\<rparr>
             else ed)"

section \<open>Notions used in the statements and the proofs\<close>

text \<open>The commands that the parser knows, the lines it skips, and the lines it places on
  the spiral.\<close>

definition recognizedCommands :: "string list" where
  "recognizedCommands = nodeCommands @ structuralCommands @ [''link'']"

definition skipped :: "string \<Rightarrow> bool" where
  "skipped line = (trim line = [] \<or> startsWith (trim line) ''//'')"

definition needsDefault :: "string \<Rightarrow> bool" where
  "needsDefault line =
     (commandOf line \<in> set (nodeCommands @ structuralCommands) \<and> lineCoords (trim line) = None)"

text \<open>The texts that the coordinate pattern matches: \<open>coordText c1 c2 m\<close> says that \<open>m\<close>
  is a match with the captures \<open>c1\<close> and \<open>c2\<close>.\<close>

definition isNumberText :: "string \<Rightarrow> bool" where
  "isNumberText c =
     (case c of [] \<Rightarrow> False
      | d # ds \<Rightarrow> if d = CHR ''-'' then ds \<noteq> [] \<and> list_all isDigit ds
                  else list_all isDigit (d # ds))"

definition coordText :: "string \<Rightarrow> string \<Rightarrow> string \<Rightarrow> bool" where
  "coordText c1 c2 m =
     (\<exists>w1 w2 w3. m = CHR ''('' # w1 @ c1 @ CHR '','' # w2 @ c2 @ w3 @ [CHR '')'']
        \<and> list_all isSpace w1 \<and> list_all isSpace w2 \<and> list_all isSpace w3
        \<and> isNumberText c1 \<and> isNumberText c2)"

definition notDigitHead :: "string \<Rightarrow> bool" where
  "notDigitHead r = (case r of [] \<Rightarrow> True | x # xs \<Rightarrow> \<not> isDigit x)"

definition trimmed :: "string \<Rightarrow> bool" where
  "trimmed t = (t = [] \<or> (\<not> isSpace (hd t) \<and> \<not> isSpace (last t)))"

text \<open>The node that a declaration appends, as a function of the state before the line.\<close>

definition resolvedId :: "ParseState \<Rightarrow> nat \<Rightarrow> string list \<Rightarrow> string \<Rightarrow> jsval" where
  "resolvedId st i parts command =
     (if command \<in> set attributeCommands \<or> elemAt parts 1 \<in> existingIds st
      then Some (interpolate (elemAt parts 1) @ ''_'' @ numberToString (int i))
      else elemAt parts 1)"

definition specIdent :: "ParseState \<Rightarrow> nat \<Rightarrow> string list \<Rightarrow> string" where
  "specIdent st i parts =
     (let ident0 = (if truthy (elemAt parts 1) then interpolate (elemAt parts 1)
                    else ''spec_'' @ numberToString (int i))
      in if Some ident0 \<in> existingIds st then ident0 @ ''_'' @ numberToString (int i) else ident0)"

definition specMeta :: "string list \<Rightarrow> string \<Rightarrow> string" where
  "specMeta parts command =
     (if truthy (elemAt parts 1) then interpolate (elemAt parts 1)
      else if command = ''union'' then ''u'' else ''d'')"

definition nodeFor :: "ParseState \<Rightarrow> nat \<Rightarrow> string list \<Rightarrow> string \<Rightarrow> int \<times> int \<Rightarrow> NodeData" where
  "nodeFor st i parts command pos =
     \<lparr>node_id = resolvedId st i parts command, node_type = nodeTypeOf command,
      node_label = elemAt parts 1, node_x = fst pos, node_y = snd pos, node_meta = None,
      node_lineIndex = int i\<rparr>"

definition specFor :: "ParseState \<Rightarrow> nat \<Rightarrow> string list \<Rightarrow> string \<Rightarrow> int \<times> int \<Rightarrow> NodeData" where
  "specFor st i parts command pos =
     \<lparr>node_id = Some (specIdent st i parts),
      node_type = (if command = ''union'' then union_node else specialization),
      node_label = Some (specMeta parts command), node_x = fst pos, node_y = snd pos,
      node_meta = Some (specMeta parts command), node_lineIndex = int i\<rparr>"

text \<open>Documents and editor states on which the theorems are run.\<close>

definition staleEditor :: Editor where
  "staleEditor =
     \<lparr>ed_code = ''ent A (10, 20)'',
      ed_nodes = [\<lparr>node_id = Some ''B'', node_type = entity, node_label = Some ''B'',
                   node_x = 30, node_y = 40, node_meta = None, node_lineIndex = 1\<rparr>],
      ed_links = []\<rparr>"

definition sampleEditor :: Editor where
  "sampleEditor =
     \<lparr>ed_code = joinLines [''// sample'', ''ent A (10, 20)  '', ''ent B''],
      ed_nodes = [\<lparr>node_id = Some ''A'', node_type = entity, node_label = Some ''A'',
                   node_x = 10, node_y = 20, node_meta = None, node_lineIndex = 1\<rparr>],
      ed_links = []\<rparr>"

definition lenientCode :: string where
  "lenientCode = joinLines [''ent A (1, 2)'', ''entity B -> A (3, 4)'', ''link A A'']"

definition ghostCode :: string where
  "ghostCode = joinLines [''ent REAL (1, 2)'', ''link GHOST REAL'']"

definition attributeCode :: string where
  "attributeCode =
     joinLines [''ent A (1, 2)'', ''att Name -> A (3, 4)'', ''ent B (5, 6)'', ''key_att Name -> B'']"

definition spiralCode :: string where
  "spiralCode = joinLines [''ent X'', ''ent Y (7, 8)'', ''// note'', ''spec d -> X'']"

definition twoCoordsEditor :: Editor where
  "twoCoordsEditor = \<lparr>ed_code = ''ent A (1, 2) (3, 4)'', ed_nodes = [], ed_links = []\<rparr>"

definition roundTripEditor :: Editor where
  "roundTripEditor =
     \<lparr>ed_code = joinLines [''ent A (10, 20)'', ''  att Name -> A   (5, -7)  '', ''ent B''],
      ed_nodes = [], ed_links = []\<rparr>"

definition nameNode :: NodeData where
  "nameNode = \<lparr>node_id = Some ''Name_1'', node_type = attribute, node_label = Some ''Name'',
       node_x = 5, node_y = - 7, node_meta = None, node_lineIndex = 1\<rparr>"

section \<open>Lemmas\<close>

subsection \<open>Lines of a text\<close>

lemma splitLines_not_Nil: "splitLines s \<noteq> []"
  by (induction s) (auto split: list.splits)

lemma splitLines_no_newline: "l \<in> set (splitLines s) \<Longrightarrow> CHR 0x0A \<notin> set l"
proof (induction s arbitrary: l)
  case Nil
  then show ?case by simp
next
  case (Cons c cs)
  show ?case
  proof (cases "c = CHR 0x0A")
    case True
    with Cons show ?thesis by auto
  next
    case False
    obtain h t where ht: "splitLines cs = h # t"
      using splitLines_not_Nil [of cs] by (cases "splitLines cs") auto
    with Cons False show ?thesis by auto
  qed
qed

lemma splitLines_append_newline:
  "CHR 0x0A \<notin> set l \<Longrightarrow> splitLines (l @ CHR 0x0A # s) = l # splitLines s"
  by (induction l) auto

lemma splitLines_single: "CHR 0x0A \<notin> set l \<Longrightarrow> splitLines l = [l]"
  by (induction l) auto

lemma splitLines_joinLines:
  "ls \<noteq> [] \<Longrightarrow> \<forall>l \<in> set ls. CHR 0x0A \<notin> set l \<Longrightarrow> splitLines (joinLines ls) = ls"
proof (induction ls)
  case Nil
  then show ?case by simp
next
  case (Cons l ls)
  show ?case
  proof (cases ls)
    case Nil
    with Cons.prems show ?thesis by (simp add: splitLines_single)
  next
    case (Cons a as)
    with Cons.IH Cons.prems show ?thesis
      by (simp add: splitLines_append_newline)
  qed
qed

lemma joinLines_splitLines: "joinLines (splitLines s) = s"
proof (induction s)
  case Nil
  then show ?case by simp
next
  case (Cons c cs)
  obtain h t where ht: "splitLines cs = h # t"
    using splitLines_not_Nil [of cs] by (cases "splitLines cs") auto
  show ?case
  proof (cases "c = CHR 0x0A")
    case True
    with Cons ht show ?thesis by simp
  next
    case False
    with Cons ht show ?thesis by (cases t) auto
  qed
qed

lemma set_trimEnd: "set (trimEnd s) \<subseteq> set s"
  using set_dropWhileD [of _ isSpace "rev s"] by (auto simp: trimEnd_def)

subsection \<open>Printing and reading integers\<close>

lemma digitChar_isDigit: "d < 10 \<Longrightarrow> isDigit (digitChar d)"
proof -
  assume "d < 10"
  then have "d \<in> {0, 1, 2, 3, 4, 5, 6, 7, 8, 9}" by auto
  then show ?thesis by (auto simp: digitChar_def isDigit_def)
qed

lemma digitValue_digitChar: "d < 10 \<Longrightarrow> digitValue (digitChar d) = d"
proof -
  assume "d < 10"
  then have "d \<in> {0, 1, 2, 3, 4, 5, 6, 7, 8, 9}" by auto
  then show ?thesis by (auto simp: digitChar_def digitValue_def)
qed

lemma digitsOf_digits: "c \<in> set (digitsOf n) \<Longrightarrow> isDigit c"
proof (induction n arbitrary: c rule: digitsOf.induct)
  case (1 n)
  show ?case
  proof (cases "n < 10")
    case True
    with "1.prems" show ?thesis by (simp add: digitsOf.simps [of n] digitChar_isDigit)
  next
    case False
    with "1.prems" have "c \<in> set (digitsOf (n div 10)) \<or> c = digitChar (n mod 10)"
      by (auto simp: digitsOf.simps [of n])
    with False "1.IH" show ?thesis by (auto simp: digitChar_isDigit)
  qed
qed

lemma digitsOf_not_Nil: "digitsOf n \<noteq> []"
  by (simp add: digitsOf.simps [of n])

lemma parseDigits_snoc: "parseDigits (s @ [c]) = 10 * parseDigits s + digitValue c"
  by (simp add: parseDigits_def)

lemma parseDigits_digitsOf: "parseDigits (digitsOf n) = n"
proof (induction n rule: digitsOf.induct)
  case (1 n)
  show ?case
  proof (cases "n < 10")
    case True
    then show ?thesis by (simp add: digitsOf.simps [of n] parseDigits_def digitValue_digitChar)
  next
    case False
    with "1.IH" show ?thesis
      by (simp add: digitsOf.simps [of n] parseDigits_snoc digitValue_digitChar)
  qed
qed

lemma isDigit_not_minus: "isDigit c \<Longrightarrow> c \<noteq> CHR ''-''"
  by (auto simp: isDigit_def)

lemma parseInt_numberToString: "parseInt (numberToString k) = k"
proof (cases "k < 0")
  case True
  then show ?thesis by (simp add: numberToString_def parseInt_def parseDigits_digitsOf)
next
  case False
  obtain c r where cr: "digitsOf (nat k) = c # r"
    using digitsOf_not_Nil [of "nat k"] by (cases "digitsOf (nat k)") auto
  then have "isDigit c" using digitsOf_digits [of c "nat k"] by simp
  then have "c \<noteq> CHR ''-''" by (rule isDigit_not_minus)
  with False cr parseDigits_digitsOf [of "nat k"] show ?thesis
    by (simp add: numberToString_def parseInt_def)
qed

lemma mathRound_of_int: "mathRound (of_int k) = k"
  by (simp add: mathRound_def)

lemma numberToString_chars:
  "c \<in> set (numberToString k) \<Longrightarrow> isDigit c \<or> c = CHR ''-''"
  by (auto simp: numberToString_def dest: digitsOf_digits split: if_splits)

subsection \<open>White space at the ends\<close>

lemma trimEnd_Cons: "trimEnd (c # s) = (if trimEnd s = [] \<and> isSpace c then [] else c # trimEnd s)"
proof (cases "\<forall>d \<in> set (rev s). isSpace d")
  case True
  then have "dropWhile isSpace (rev s @ [c]) = dropWhile isSpace [c]"
    by (intro dropWhile_append2) auto
  moreover from True have "dropWhile isSpace (rev s) = []" by simp
  ultimately show ?thesis by (simp add: trimEnd_def del: dropWhile_append3)
next
  case False
  then obtain d where "d \<in> set (rev s)" "\<not> isSpace d" by blast
  then have "dropWhile isSpace (rev s @ [c]) = dropWhile isSpace (rev s) @ [c]"
    by (simp add: dropWhile_append1)
  moreover from False have "dropWhile isSpace (rev s) \<noteq> []" by (simp add: dropWhile_eq_Nil_conv)
  ultimately show ?thesis by (simp add: trimEnd_def)
qed

lemma trimEnd_Nil [simp]: "trimEnd [] = []"
  by (simp add: trimEnd_def)

lemma trim_Cons_nonspace: "\<not> isSpace c \<Longrightarrow> trim (c # s) = c # trimEnd s"
  by (simp add: trim_def trimStart_def trimEnd_Cons)

subsection \<open>Skipped lines have no command\<close>

lemma matchCoordAt_not_paren: "c \<noteq> CHR ''('' \<Longrightarrow> matchCoordAt (c # s) = None"
  by (simp add: matchCoordAt_def)

lemma replaceCoord_Cons:
  "c \<noteq> CHR ''('' \<Longrightarrow> replaceCoord (c # s) = c # replaceCoord s"
  by (auto simp: replaceCoord_def matchCoordAt_not_paren split: option.splits)

lemma splitSpaces_first:
  "\<not> isSpace c \<Longrightarrow> \<exists>t ts. splitSpaces (c # s) = (c # t) # ts"
  by (subst splitSpaces.simps) (auto split: list.splits)

lemma lowerChar_slash: "lowerChar (CHR ''/'') = CHR ''/''"
  by (simp add: lowerChar_def)

lemma commandOf_skipped:
  assumes "skipped line"
  shows "commandOf line = [] \<or> (\<exists>r. commandOf line = CHR ''/'' # r)"
proof (cases "trim line = []")
  case True
  then show ?thesis
    by (simp add: commandOf_def lineParts_def replaceCoord_def trim_def trimStart_def
        splitSpaces.simps elemAt_def interpolate_def toLowerCase_def)
next
  case False
  with assms have "startsWith (trim line) ''//''" by (simp add: skipped_def)
  then obtain r where r: "trim line = CHR ''/'' # CHR ''/'' # r"
    by (cases "trim line"; cases "tl (trim line)") (auto simp: startsWith_def)
  have ns: "\<not> isSpace (CHR ''/'')" by (simp add: isSpace_def)
  have "replaceCoord (trim line) = CHR ''/'' # CHR ''/'' # replaceCoord r"
    by (simp add: r replaceCoord_Cons)
  then have "trim (replaceCoord (trim line)) = CHR ''/'' # trimEnd (CHR ''/'' # replaceCoord r)"
    by (simp add: trim_Cons_nonspace ns)
  moreover obtain t ts where
    "splitSpaces (CHR ''/'' # trimEnd (CHR ''/'' # replaceCoord r)) = (CHR ''/'' # t) # ts"
    using splitSpaces_first [OF ns] by blast
  ultimately have "lineParts (trim line) = (CHR ''/'' # t) # ts"
    by (simp add: lineParts_def)
  then show ?thesis
    by (simp add: commandOf_def elemAt_def interpolate_def toLowerCase_def lowerChar_slash)
qed

lemma recognized_not_skipped:
  "commandOf line \<in> set recognizedCommands \<Longrightarrow> \<not> skipped line"
  using commandOf_skipped [of line]
  by (auto simp: recognizedCommands_def nodeCommands_def structuralCommands_def)

subsection \<open>One line\<close>

lemma parseLine_unrecognized:
  "commandOf line \<notin> set recognizedCommands \<Longrightarrow> parseLine sp st line i = st"
  by (simp add: parseLine_def recognizedCommands_def Let_def)

lemma parseLine_blank: "parseLine sp st [] i = st"
  by (simp add: parseLine_def trim_def trimStart_def)

lemma parseLine_link:
  "commandOf line = ''link'' \<Longrightarrow>
   parseLine sp st line i = declareLink st (trim (replaceCoord (trim line))) (lineParts (trim line))"
  using recognized_not_skipped [of line]
  by (simp add: parseLine_def recognizedCommands_def skipped_def Let_def nodeCommands_def
      structuralCommands_def)

lemma parseLine_node:
  "commandOf line \<in> set nodeCommands \<Longrightarrow>
   parseLine sp st line i =
     declareNode sp st i (lineCoords (trim line)) (lineParts (trim line)) (commandOf line)"
  using recognized_not_skipped [of line]
  by (simp add: parseLine_def recognizedCommands_def skipped_def Let_def)

lemma parseLine_spec:
  "commandOf line \<in> set structuralCommands \<Longrightarrow>
   parseLine sp st line i =
     declareSpec sp st i (lineCoords (trim line)) (lineParts (trim line)) (commandOf line)"
  using recognized_not_skipped [of line]
  by (auto simp: parseLine_def recognizedCommands_def skipped_def Let_def nodeCommands_def
      structuralCommands_def)

lemma parseLine_cases:
  obtains (none) "parseLine sp st line i = st"
  | (node) "commandOf line \<in> set nodeCommands"
      "parseLine sp st line i =
         declareNode sp st i (lineCoords (trim line)) (lineParts (trim line)) (commandOf line)"
  | (spec) "commandOf line \<in> set structuralCommands"
      "parseLine sp st line i =
         declareSpec sp st i (lineCoords (trim line)) (lineParts (trim line)) (commandOf line)"
  | (link) "commandOf line = ''link''"
      "parseLine sp st line i =
         declareLink st (trim (replaceCoord (trim line))) (lineParts (trim line))"
proof (cases "commandOf line \<in> set recognizedCommands")
  case False
  then show ?thesis using none parseLine_unrecognized by blast
next
  case True
  then consider "commandOf line \<in> set nodeCommands" | "commandOf line \<in> set structuralCommands"
    | "commandOf line = ''link''"
    by (auto simp: recognizedCommands_def)
  then show ?thesis
    using node spec link parseLine_node parseLine_spec parseLine_link by cases blast+
qed

subsection \<open>What a line appends\<close>

lemma declareNode_newNodes:
  "newNodes (declareNode sp st i xy parts command) =
     newNodes st @
     [\<lparr>node_id = resolvedId st i parts command, node_type = nodeTypeOf command,
       node_label = elemAt parts 1, node_x = fst (fst (finalPos sp xy st)),
       node_y = snd (fst (finalPos sp xy st)), node_meta = None, node_lineIndex = int i\<rparr>]"
  by (simp add: declareNode_def resolvedId_def Let_def finalPos_def getDefaultPos_def
      split: option.splits prod.splits)

lemma declareSpec_newNodes:
  "\<exists>ident meta.
     newNodes (declareSpec sp st i xy parts command) =
       newNodes st @
       [\<lparr>node_id = Some ident,
         node_type = (if command = ''union'' then union_node else specialization),
         node_label = Some meta, node_x = fst (fst (finalPos sp xy st)),
         node_y = snd (fst (finalPos sp xy st)), node_meta = Some meta,
         node_lineIndex = int i\<rparr>]"
  by (simp add: declareSpec_def Let_def finalPos_def getDefaultPos_def
      split: option.splits prod.splits)

lemma declareLink_newNodes: "newNodes (declareLink st lwc parts) = newNodes st"
  by (simp add: declareLink_def Let_def)

lemma declareNode_newLinks:
  "\<exists>ls. newLinks (declareNode sp st i xy parts command) = newLinks st @ ls"
  by (simp add: declareNode_def Let_def finalPos_def getDefaultPos_def
      split: option.splits prod.splits)

lemma declareSpec_newLinks:
  "\<exists>ls. newLinks (declareSpec sp st i xy parts command) = newLinks st @ ls"
  by (simp add: declareSpec_def Let_def finalPos_def getDefaultPos_def
      split: option.splits prod.splits)

lemma declareLink_newLinks:
  "newLinks (declareLink st lwc parts) =
     (if truthy (elemAt parts 1) \<and> truthy (elemAt parts 2)
      then newLinks st @
        [\<lparr>link_source = elemAt parts 1, link_target = elemAt parts 2,
          link_label = (case matchLabel lwc of None \<Rightarrow> [] | Some l \<Rightarrow> l),
          link_style = (if includesStr lwc ''[total]'' \<or> includesStr lwc ''[double]''
                        then double else solid)\<rparr>]
      else newLinks st)"
  by (simp add: declareLink_def Let_def)

lemma parseLine_newNodes:
  "\<exists>ns. newNodes (parseLine sp st line i) = newNodes st @ ns
     \<and> (\<forall>n \<in> set ns. node_lineIndex n = int i)"
proof (cases rule: parseLine_cases [of sp st line i])
  case none
  then show ?thesis by simp
next
  case node
  then show ?thesis by (simp add: declareNode_newNodes)
next
  case spec
  then show ?thesis using declareSpec_newNodes [of sp st i] by (metis (no_types, lifting) NodeData.select_convs(7) empty_iff empty_set set_ConsD)
next
  case link
  then show ?thesis by (simp add: declareLink_newNodes)
qed

lemma parseLine_newLinks: "\<exists>ls. newLinks (parseLine sp st line i) = newLinks st @ ls"
proof (cases rule: parseLine_cases [of sp st line i])
  case none
  then show ?thesis by simp
next
  case node
  then show ?thesis by (simp add: declareNode_newLinks)
next
  case spec
  then show ?thesis by (simp add: declareSpec_newLinks)
next
  case link
  then show ?thesis by (simp add: declareLink_newLinks)
qed

subsection \<open>The loop\<close>

lemma forEachLine_append:
  "forEachLine sp st (xs @ ys) k = forEachLine sp (forEachLine sp st xs k) ys (k + length xs)"
  by (induction xs arbitrary: st k) auto

lemma forEachLine_newNodes:
  "\<exists>ns. newNodes (forEachLine sp st ls k) = newNodes st @ ns
     \<and> (\<forall>n \<in> set ns. int k \<le> node_lineIndex n \<and> node_lineIndex n < int (k + length ls))"
proof (induction ls arbitrary: st k)
  case Nil
  then show ?case by simp
next
  case (Cons l ls)
  obtain ns1 where ns1: "newNodes (parseLine sp st l k) = newNodes st @ ns1"
    "\<forall>n \<in> set ns1. node_lineIndex n = int k"
    using parseLine_newNodes by blast
  obtain ns2 where ns2:
    "newNodes (forEachLine sp (parseLine sp st l k) ls (Suc k)) = newNodes (parseLine sp st l k) @ ns2"
    "\<forall>n \<in> set ns2. int (Suc k) \<le> node_lineIndex n \<and> node_lineIndex n < int (Suc k + length ls)"
    using Cons.IH by blast
  have "newNodes (forEachLine sp st (l # ls) k) = newNodes st @ (ns1 @ ns2)"
    by (simp add: ns1 ns2)
  moreover have "\<forall>n \<in> set (ns1 @ ns2).
      int k \<le> node_lineIndex n \<and> node_lineIndex n < int (k + length (l # ls))"
    using ns1(2) ns2(2) by auto
  ultimately show ?case by blast
qed

lemma forEachLine_newLinks:
  "\<exists>ls'. newLinks (forEachLine sp st ls k) = newLinks st @ ls'"
proof (induction ls arbitrary: st k)
  case Nil
  then show ?case by simp
next
  case (Cons l ls)
  obtain a where "newLinks (parseLine sp st l k) = newLinks st @ a"
    using parseLine_newLinks by blast
  moreover obtain b where
    "newLinks (forEachLine sp (parseLine sp st l k) ls (Suc k)) = newLinks (parseLine sp st l k) @ b"
    using Cons.IH by blast
  ultimately show ?case by simp
qed

lemma forEachLine_update:
  "j < length ls \<Longrightarrow> (\<And>st. parseLine sp st (ls ! j) (k + j) = parseLine sp st l' (k + j)) \<Longrightarrow>
   forEachLine sp st (ls[j := l']) k = forEachLine sp st ls k"
proof (induction ls arbitrary: j st k)
  case Nil
  then show ?case by simp
next
  case (Cons l ls)
  show ?case
  proof (cases j)
    case 0
    with Cons.prems(2) [of st] show ?thesis by simp
  next
    case (Suc j')
    with Cons.prems have "forEachLine sp (parseLine sp st l k) (ls[j' := l']) (Suc k)
        = forEachLine sp (parseLine sp st l k) ls (Suc k)"
      by (intro Cons.IH) auto
    with Suc show ?thesis by simp
  qed
qed

lemma forEachLine_split:
  assumes "i < length ls"
  shows "forEachLine sp st ls k =
     forEachLine sp (parseLine sp (forEachLine sp st (take i ls) k) (ls ! i) (k + i))
       (drop (Suc i) ls) (Suc (k + i))"
proof -
  have "ls = take i ls @ (ls ! i) # drop (Suc i) ls"
    using assms by (simp add: id_take_nth_drop)
  then have "forEachLine sp st ls k = forEachLine sp st (take i ls @ (ls ! i) # drop (Suc i) ls) k"
    by simp
  also have "\<dots> = forEachLine sp (forEachLine sp st (take i ls) k) ((ls ! i) # drop (Suc i) ls)
      (k + length (take i ls))"
    by (rule forEachLine_append)
  finally show ?thesis using assms by (simp add: min_def)
qed

subsection \<open>The pattern at the head of a string\<close>

lemma notDigitHead_dropWhile: "notDigitHead (dropWhile isDigit s)"
  by (induction s) (auto simp: notDigitHead_def)

lemma takeWhile_all: "list_all P (takeWhile P s)"
  by (induction s) auto

lemma matchNumber_Some:
  assumes "matchNumber s = Some (c, r)"
  shows "s = c @ r \<and> isNumberText c \<and> notDigitHead r"
proof (cases "\<exists>t. s = CHR ''-'' # t")
  case True
  then obtain t where t: "s = CHR ''-'' # t" by blast
  with assms have c: "c = CHR ''-'' # takeWhile isDigit t" and r: "r = dropWhile isDigit t"
    and ne: "takeWhile isDigit t \<noteq> []"
    by (auto simp: matchNumber_def Let_def split: if_splits)
  from c ne have "isNumberText c" by (simp add: isNumberText_def takeWhile_all)
  with t c r show ?thesis by (simp add: notDigitHead_dropWhile)
next
  case False
  then have "(case s of c # r' \<Rightarrow> if c = CHR ''-'' then ([c], r') else ([], s) | [] \<Rightarrow> ([], s)) = ([], s)"
    by (cases s) auto
  with assms have c: "c = takeWhile isDigit s" and r: "r = dropWhile isDigit s"
    and ne: "takeWhile isDigit s \<noteq> []"
    by (auto simp: matchNumber_def Let_def split: if_splits)
  from ne obtain d ds where dds: "takeWhile isDigit s = d # ds" by (cases "takeWhile isDigit s") auto
  have "list_all isDigit (d # ds)" using takeWhile_all [of isDigit s] dds by simp
  moreover from this have "d \<noteq> CHR ''-''" by (auto dest: isDigit_not_minus)
  ultimately have "isNumberText c" by (simp add: c dds isNumberText_def)
  with c r show ?thesis by (simp add: notDigitHead_dropWhile)
qed

lemma takeWhile_digits_append:
  "list_all isDigit ds \<Longrightarrow> notDigitHead r \<Longrightarrow> takeWhile isDigit (ds @ r) = ds"
  by (induction ds) (auto simp: notDigitHead_def split: list.splits)

lemma dropWhile_digits_append:
  "list_all isDigit ds \<Longrightarrow> notDigitHead r \<Longrightarrow> dropWhile isDigit (ds @ r) = r"
  by (induction ds) (auto simp: notDigitHead_def split: list.splits)

lemma matchNumber_intro:
  assumes "isNumberText c" and "notDigitHead r"
  shows "matchNumber (c @ r) = Some (c, r)"
proof -
  from assms(1) obtain d ds where c: "c = d # ds" by (cases c) (auto simp: isNumberText_def)
  show ?thesis
  proof (cases "d = CHR ''-''")
    case True
    with assms c have "ds \<noteq> []" "list_all isDigit ds" by (auto simp: isNumberText_def)
    with True c assms(2) show ?thesis
      by (simp add: matchNumber_def Let_def takeWhile_digits_append dropWhile_digits_append)
  next
    case False
    with assms c have "list_all isDigit (d # ds)" by (auto simp: isNumberText_def)
    with False c assms(2) takeWhile_digits_append [of "d # ds" r]
      dropWhile_digits_append [of "d # ds" r]
    show ?thesis
      by (simp add: matchNumber_def Let_def)
  qed
qed

lemma matchCoordAt_Some:
  assumes "matchCoordAt s = Some ((c1, c2), rest)"
  shows "\<exists>m. s = m @ rest \<and> coordText c1 c2 m"
proof -
  from assms obtain r0 where s: "s = CHR ''('' # r0"
    by (cases s) (auto simp: matchCoordAt_def split: if_splits)
  from assms s obtain r1 where n1: "matchNumber (dropWhile isSpace r0) = Some (c1, r1)"
    by (auto simp: matchCoordAt_def split: option.splits list.splits if_splits)
  from assms s n1 obtain r2 where r1: "r1 = CHR '','' # r2"
    by (auto simp: matchCoordAt_def split: option.splits list.splits if_splits)
  from assms s n1 r1 obtain r3 where n2: "matchNumber (dropWhile isSpace r2) = Some (c2, r3)"
    by (auto simp: matchCoordAt_def split: option.splits list.splits if_splits)
  from assms s n1 r1 n2 have r3: "dropWhile isSpace r3 = CHR '')'' # rest"
    by (auto simp: matchCoordAt_def split: option.splits list.splits if_splits)
  let ?w1 = "takeWhile isSpace r0" and ?w2 = "takeWhile isSpace r2" and ?w3 = "takeWhile isSpace r3"
  have "r0 = ?w1 @ dropWhile isSpace r0" by simp
  also have "dropWhile isSpace r0 = c1 @ r1" using matchNumber_Some [OF n1] by simp
  also have "r1 = CHR '','' # ?w2 @ dropWhile isSpace r2" using r1 by simp
  also have "dropWhile isSpace r2 = c2 @ r3" using matchNumber_Some [OF n2] by simp
  also have "r3 = ?w3 @ dropWhile isSpace r3" by simp
  also note r3
  finally have "s = (CHR ''('' # ?w1 @ c1 @ CHR '','' # ?w2 @ c2 @ ?w3 @ [CHR '')'']) @ rest"
    using s by simp
  moreover have "coordText c1 c2 (CHR ''('' # ?w1 @ c1 @ CHR '','' # ?w2 @ c2 @ ?w3 @ [CHR '')''])"
    unfolding coordText_def
    using matchNumber_Some [OF n1] matchNumber_Some [OF n2] takeWhile_all [of isSpace]
    by blast
  ultimately show ?thesis by blast
qed

lemma isNumberText_head: "isNumberText c \<Longrightarrow> \<exists>d ds. c = d # ds \<and> \<not> isSpace d"
  by (cases c) (auto simp: isNumberText_def isSpace_def isDigit_def split: if_splits)

lemma dropWhile_spaces_append:
  "list_all isSpace w \<Longrightarrow> dropWhile isSpace (w @ s) = dropWhile isSpace s"
  by (induction w) auto

lemma matchCoordAt_intro:
  assumes "coordText c1 c2 m"
  shows "matchCoordAt (m @ rest) = Some ((c1, c2), rest)"
proof -
  from assms obtain w1 w2 w3 where
    m: "m = CHR ''('' # w1 @ c1 @ CHR '','' # w2 @ c2 @ w3 @ [CHR '')'']"
    and w: "list_all isSpace w1" "list_all isSpace w2" "list_all isSpace w3"
    and c: "isNumberText c1" "isNumberText c2"
    unfolding coordText_def by blast
  let ?t3 = "w3 @ CHR '')'' # rest"
  let ?t2 = "CHR '','' # w2 @ c2 @ ?t3"
  have nd2: "notDigitHead ?t2" by (simp add: notDigitHead_def isDigit_def)
  have nd3: "notDigitHead ?t3"
    using w(3) by (cases w3) (auto simp: notDigitHead_def isDigit_def isSpace_def)
  have d1: "dropWhile isSpace (w1 @ c1 @ ?t2) = c1 @ ?t2"
    using isNumberText_head [OF c(1)] w(1) by (auto simp: dropWhile_spaces_append)
  have d2: "dropWhile isSpace (w2 @ c2 @ ?t3) = c2 @ ?t3"
    using isNumberText_head [OF c(2)] w(2) by (auto simp: dropWhile_spaces_append)
  have d3: "dropWhile isSpace ?t3 = CHR '')'' # rest"
    using w(3) by (simp add: dropWhile_spaces_append isSpace_def)
  have "m @ rest = CHR ''('' # w1 @ c1 @ ?t2" by (simp add: m)
  then show ?thesis
    by (simp add: matchCoordAt_def d1 d2 d3 matchNumber_intro [OF c(1) nd2]
        matchNumber_intro [OF c(2) nd3])
qed

lemma matchCoordAt_iff:
  "matchCoordAt s = Some ((c1, c2), rest) \<longleftrightarrow> (\<exists>m. s = m @ rest \<and> coordText c1 c2 m)"
  using matchCoordAt_Some matchCoordAt_intro by blast

subsection \<open>Shape of a match\<close>

lemma isNumberText_chars: "isNumberText c \<Longrightarrow> x \<in> set c \<Longrightarrow> isDigit x \<or> x = CHR ''-''"
  by (cases c) (auto simp: isNumberText_def list_all_iff split: if_splits)

lemma coordText_shape:
  assumes "coordText c1 c2 m"
  shows "\<exists>body. m = CHR ''('' # body @ [CHR '')''] \<and> CHR ''('' \<notin> set body"
proof -
  from assms obtain w1 w2 w3 where
    m: "m = CHR ''('' # w1 @ c1 @ CHR '','' # w2 @ c2 @ w3 @ [CHR '')'']"
    and w: "list_all isSpace w1" "list_all isSpace w2" "list_all isSpace w3"
    and c: "isNumberText c1" "isNumberText c2"
    unfolding coordText_def by blast
  have sp: "\<not> isSpace (CHR ''('')" by (simp add: isSpace_def)
  have dg: "\<not> isDigit (CHR ''('')" by (simp add: isDigit_def)
  have "CHR ''('' \<notin> set (w1 @ c1 @ CHR '','' # w2 @ c2 @ w3)"
    using w sp dg isNumberText_chars [OF c(1), of "CHR ''(''"] isNumberText_chars [OF c(2), of "CHR ''(''"]
    by (auto simp: list_all_iff)
  with m show ?thesis by (intro exI [of _ "w1 @ c1 @ CHR '','' # w2 @ c2 @ w3"]) simp
qed

lemma matchCoordAt_extend:
  "matchCoordAt t = Some (caps, r) \<Longrightarrow> matchCoordAt (t @ u) = Some (caps, r @ u)"
proof -
  assume h: "matchCoordAt t = Some (caps, r)"
  obtain c1 c2 where caps: "caps = (c1, c2)" by (cases caps)
  from h caps obtain m where "t = m @ r" "coordText c1 c2 m"
    using matchCoordAt_Some by blast
  then show ?thesis using matchCoordAt_intro [of c1 c2 m "r @ u"] caps by simp
qed

lemma matchCoordAt_restrict:
  assumes "matchCoordAt (t @ u) = Some (caps, r')"
  shows "(\<exists>r. matchCoordAt t = Some (caps, r) \<and> r' = r @ u)
       \<or> (\<exists>m v. coordText (fst caps) (snd caps) m \<and> m = t @ v \<and> v \<noteq> [] \<and> u = v @ r')"
proof -
  obtain c1 c2 where caps: "caps = (c1, c2)" by (cases caps)
  from assms caps obtain m where m: "t @ u = m @ r'" "coordText c1 c2 m"
    using matchCoordAt_Some by blast
  from m(1) obtain us where "t = m @ us \<and> us @ u = r' \<or> t @ us = m \<and> u = us @ r'"
    unfolding append_eq_append_conv2 by blast
  then show ?thesis
  proof
    assume a: "t = m @ us \<and> us @ u = r'"
    then have "matchCoordAt t = Some (caps, us)"
      using matchCoordAt_intro [OF m(2), of us] caps by simp
    with a show ?thesis by auto
  next
    assume a: "t @ us = m \<and> u = us @ r'"
    show ?thesis
    proof (cases "us = []")
      case True
      with a have "matchCoordAt t = Some (caps, [])"
        using matchCoordAt_intro [OF m(2), of "[]"] caps by simp
      with a True show ?thesis by auto
    next
      case False
      with a m(2) caps show ?thesis by auto
    qed
  qed
qed

lemma matchCoordAt_spaces_after:
  assumes "list_all isSpace w" and "matchCoordAt t = None"
  shows "matchCoordAt (t @ w) = None"
proof (rule ccontr)
  assume "matchCoordAt (t @ w) \<noteq> None"
  then obtain caps r' where h: "matchCoordAt (t @ w) = Some (caps, r')" by auto
  from matchCoordAt_restrict [OF h] assms(2)
  obtain m v where mv: "coordText (fst caps) (snd caps) m" "m = t @ v" "v \<noteq> []" "w = v @ r'"
    by auto
  from coordText_shape [OF mv(1)] have "last m = CHR '')''" by auto
  with mv(2,3) have "last v = CHR '')''" by simp
  moreover from mv(3,4) assms(1) have "isSpace (last v)" by (auto simp: list_all_iff)
  ultimately show False by (simp add: isSpace_def)
qed

lemma matchCoordAt_paren_after:
  assumes "t \<noteq> []" and "matchCoordAt t = None"
  shows "matchCoordAt (t @ CHR '' '' # CHR ''('' # u) = None"
proof (rule ccontr)
  assume "matchCoordAt (t @ CHR '' '' # CHR ''('' # u) \<noteq> None"
  then obtain caps r' where h: "matchCoordAt (t @ CHR '' '' # CHR ''('' # u) = Some (caps, r')"
    by auto
  from matchCoordAt_restrict [OF h] assms(2)
  obtain m v where mv: "coordText (fst caps) (snd caps) m" "m = t @ v" "v \<noteq> []"
    "CHR '' '' # CHR ''('' # u = v @ r'"
    by auto
  from coordText_shape [OF mv(1)] obtain body where
    body: "m = CHR ''('' # body @ [CHR '')'']" "CHR ''('' \<notin> set body" by blast
  from assms(1) obtain a t' where t: "t = a # t'" by (cases t) auto
  from mv(3,4) obtain v' where v: "v = CHR '' '' # v'" by (cases v) auto
  from body(1) mv(2) t v have eq: "t' @ CHR '' '' # v' = body @ [CHR '')'']" by simp
  show False
  proof (cases v' rule: rev_cases)
    case Nil
    with eq show False by simp
  next
    case (snoc v'' z)
    with eq have b: "body = t' @ CHR '' '' # v''" by simp
    from mv(4) v snoc have "CHR ''('' # u = v'' @ z # r'" by simp
    then have "v'' \<noteq> [] \<Longrightarrow> hd v'' = CHR ''(''" by (cases v'') auto
    moreover have "v'' = [] \<Longrightarrow> z = CHR ''(''" using \<open>CHR ''('' # u = v'' @ z # r'\<close> by simp
    moreover have "z = CHR '')''" using eq snoc by simp
    ultimately have "v'' \<noteq> []" "hd v'' = CHR ''(''" by auto
    then have "CHR ''('' \<in> set v''" by (cases v'') auto
    with b body(2) show False by simp
  qed
qed

subsection \<open>The leftmost match\<close>

lemma findCoord_None_Cons:
  "findCoord (c # cs) = None \<longleftrightarrow> matchCoordAt (c # cs) = None \<and> findCoord cs = None"
  by (auto split: option.splits)

lemma findCoord_spaces_before:
  "list_all isSpace w \<Longrightarrow>
   findCoord (w @ s) = map_option (\<lambda>(b, caps, r). (w @ b, caps, r)) (findCoord s)"
proof (induction w)
  case Nil
  then show ?case by (simp add: option.map_ident split_def)
next
  case (Cons a w)
  then have "a \<noteq> CHR ''(''" by (auto simp: isSpace_def)
  then have "matchCoordAt (a # w @ s) = None" by (rule matchCoordAt_not_paren)
  with Cons show ?case by (simp add: option.map_comp comp_def split_def)
qed

lemma findCoord_spaces: "list_all isSpace w \<Longrightarrow> findCoord w = None"
  using findCoord_spaces_before [of w "[]"] by simp

lemma findCoord_spaces_after:
  "list_all isSpace w \<Longrightarrow>
   findCoord (s @ w) = map_option (\<lambda>(b, caps, r). (b, caps, r @ w)) (findCoord s)"
proof (induction s)
  case Nil
  then show ?case by (simp add: findCoord_spaces)
next
  case (Cons c cs)
  show ?case
  proof (cases "matchCoordAt (c # cs)")
    case None
    then have "matchCoordAt ((c # cs) @ w) = None"
      using Cons.prems matchCoordAt_spaces_after by blast
    with None Cons show ?thesis by (simp add: option.map_comp comp_def split_def)
  next
    case (Some a)
    obtain caps r where a: "a = (caps, r)" by (cases a)
    with Some have "matchCoordAt ((c # cs) @ w) = Some (caps, r @ w)"
      using matchCoordAt_extend by blast
    with Some a show ?thesis by simp
  qed
qed

lemma coordText_numbers:
  "coordText (numberToString x) (numberToString y)
     (CHR ''('' # numberToString x @ '', '' @ numberToString y @ '')'')"
proof -
  have n: "\<And>k. isNumberText (numberToString k)"
  proof -
    fix k
    obtain d ds where dds: "digitsOf (nat \<bar>k\<bar>) = d # ds"
      using digitsOf_not_Nil [of "nat \<bar>k\<bar>"] by (cases "digitsOf (nat \<bar>k\<bar>)") auto
    have all: "list_all isDigit (d # ds)"
      using digitsOf_digits [of _ "nat \<bar>k\<bar>"] dds by (auto simp: list_all_iff)
    then have "d \<noteq> CHR ''-''" by (auto dest: isDigit_not_minus)
    with all dds show "isNumberText (numberToString k)"
      by (cases "k < 0") (auto simp: numberToString_def isNumberText_def abs_if)
  qed
  have sp: "list_all isSpace '' ''" by (simp add: isSpace_def)
  show ?thesis
    unfolding coordText_def
    by (rule exI [of _ "[]"], rule exI [of _ "'' ''"], rule exI [of _ "[]"])
      (simp add: n isSpace_def)
qed

lemma findCoord_suffix:
  assumes "findCoord a = None"
  shows "findCoord (a @ '' ('' @ numberToString x @ '', '' @ numberToString y @ '')'')
       = Some (a @ '' '', (numberToString x, numberToString y), [])"
  using assms
proof (induction a)
  case Nil
  have "matchCoordAt (CHR ''('' # numberToString x @ '', '' @ numberToString y @ '')'')
      = Some ((numberToString x, numberToString y), [])"
    using matchCoordAt_intro [OF coordText_numbers, of x y "[]"] by simp
  then show ?case by (simp add: matchCoordAt_not_paren)
next
  case (Cons c cs)
  from Cons.prems have m: "matchCoordAt (c # cs) = None" and f: "findCoord cs = None"
    unfolding findCoord_None_Cons by simp_all
  have "matchCoordAt ((c # cs) @ CHR '' '' # CHR ''('' # numberToString x @ '', ''
      @ numberToString y @ '')'') = None"
    using m by (intro matchCoordAt_paren_after) simp_all
  with Cons.IH [OF f] show ?case by simp
qed

lemma trimEnd_decomp: "\<exists>w. list_all isSpace w \<and> s = trimEnd s @ w"
proof -
  have "trimEnd s @ rev (takeWhile isSpace (rev s))
      = rev (takeWhile isSpace (rev s) @ dropWhile isSpace (rev s))"
    by (simp only: rev_append trimEnd_def)
  also have "\<dots> = s" by (simp only: takeWhile_dropWhile_id rev_rev_ident)
  finally have "s = trimEnd s @ rev (takeWhile isSpace (rev s))" by simp
  moreover have "list_all isSpace (rev (takeWhile isSpace (rev s)))"
    using takeWhile_all [of isSpace "rev s"] by (simp add: list_all_iff)
  ultimately show ?thesis by blast
qed

lemma trim_decomp: "\<exists>w1 w2. list_all isSpace w1 \<and> list_all isSpace w2 \<and> s = w1 @ trim s @ w2"
proof -
  obtain w2 where w2: "list_all isSpace w2" "trimStart s = trim s @ w2"
    using trimEnd_decomp [of "trimStart s"] by (auto simp: trim_def)
  have "s = takeWhile isSpace s @ trimStart s" by (simp add: trimStart_def)
  with w2 have "s = takeWhile isSpace s @ trim s @ w2" by simp
  with w2(1) takeWhile_all [of isSpace s] show ?thesis by blast
qed

lemma trimEnd_spaces: "list_all isSpace w \<Longrightarrow> trimEnd (s @ w) = trimEnd s"
  by (simp add: trimEnd_def dropWhile_spaces_append list_all_iff)

lemma trimEnd_last: "s \<noteq> [] \<Longrightarrow> \<not> isSpace (last s) \<Longrightarrow> trimEnd s = s"
  by (cases s rule: rev_cases) (auto simp: trimEnd_def)

lemma trim_unique:
  assumes "list_all isSpace w1" and "list_all isSpace w2" and "trimmed t"
  shows "trim (w1 @ t @ w2) = t"
proof (cases "t = []")
  case True
  with assms have "list_all isSpace (w1 @ t @ w2)" by simp
  then have "dropWhile isSpace (w1 @ t @ w2) = []" by (simp add: list_all_iff)
  then have "trim (w1 @ t @ w2) = []" by (simp only: trim_def trimStart_def trimEnd_Nil)
  with True show ?thesis by simp
next
  case False
  with assms(3) have h: "\<not> isSpace (hd t)" and l: "\<not> isSpace (last t)"
    by (simp_all add: trimmed_def)
  from False h have "dropWhile isSpace (t @ w2) = t @ w2" by (cases t) auto
  then have "trimStart (w1 @ t @ w2) = t @ w2"
    using assms(1) by (simp add: trimStart_def dropWhile_spaces_append)
  then show ?thesis
    using assms(2) False l by (simp add: trim_def trimEnd_spaces trimEnd_last)
qed

lemma trimEnd_not_Nil_last: "trimEnd s \<noteq> [] \<Longrightarrow> \<not> isSpace (last (trimEnd s))"
proof -
  assume "trimEnd s \<noteq> []"
  then have ne: "dropWhile isSpace (rev s) \<noteq> []" by (simp add: trimEnd_def)
  then have "\<not> isSpace (hd (dropWhile isSpace (rev s)))" by (rule hd_dropWhile)
  with ne show ?thesis by (simp add: trimEnd_def last_rev)
qed

lemma trimmed_trim: "trimmed (trim s)"
proof (cases "trim s = []")
  case True
  then show ?thesis by (simp add: trimmed_def)
next
  case False
  then have l: "\<not> isSpace (last (trim s))"
    unfolding trim_def by (rule trimEnd_not_Nil_last)
  obtain w where w: "trimStart s = trim s @ w"
    using trimEnd_decomp [of "trimStart s"] by (auto simp: trim_def)
  from False w have ne: "dropWhile isSpace s \<noteq> []" by (auto simp: trimStart_def)
  then have "\<not> isSpace (hd (dropWhile isSpace s))" by (rule hd_dropWhile)
  moreover have "hd (dropWhile isSpace s) = hd (trim s)"
    using w False by (simp add: trimStart_def)
  ultimately show ?thesis using l by (simp add: trimmed_def)
qed

lemma trim_spaces:
  assumes "list_all isSpace w1" and "list_all isSpace w2"
  shows "trim (w1 @ s @ w2) = trim s"
proof -
  obtain a b where ab: "list_all isSpace a" "list_all isSpace b" "s = a @ trim s @ b"
    using trim_decomp by blast
  have "trim ((w1 @ a) @ trim s @ (b @ w2)) = trim s"
    using assms ab(1,2) by (intro trim_unique trimmed_trim) simp_all
  moreover have "w1 @ s @ w2 = (w1 @ a) @ trim s @ (b @ w2)"
    using ab(3) by (metis append.assoc)
  ultimately show ?thesis by (simp only:)
qed

subsection \<open>Removing the match under white space\<close>

lemma replaceCoord_spaces:
  assumes "list_all isSpace w1" and "list_all isSpace w2"
  shows "replaceCoord (w1 @ s @ w2) = w1 @ replaceCoord s @ w2"
proof -
  have "findCoord (w1 @ s @ w2) =
      map_option (\<lambda>(b, caps, r). (w1 @ b, caps, r))
        (map_option (\<lambda>(b, caps, r). (b, caps, r @ w2)) (findCoord s))"
    using assms by (simp add: findCoord_spaces_before findCoord_spaces_after)
  then show ?thesis
    by (cases "findCoord s") (auto simp: replaceCoord_def)
qed

lemma findCoord_None_spaces:
  assumes "list_all isSpace w1" and "list_all isSpace w2"
  shows "findCoord (w1 @ s @ w2) = None \<longleftrightarrow> findCoord s = None"
  using assms by (simp add: findCoord_spaces_before findCoord_spaces_after)

lemma trim_replaceCoord_trim: "trim (replaceCoord (trim s)) = trim (replaceCoord s)"
proof -
  obtain a b where ab: "list_all isSpace a" "list_all isSpace b" "s = a @ trim s @ b"
    using trim_decomp by blast
  have "replaceCoord (a @ trim s @ b) = a @ replaceCoord (trim s) @ b"
    using ab(1,2) by (rule replaceCoord_spaces)
  with ab(3) have "replaceCoord s = a @ replaceCoord (trim s) @ b" by simp
  then show ?thesis using ab(1,2) by (simp add: trim_spaces)
qed

lemma findCoord_None_trim: "findCoord s = None \<Longrightarrow> findCoord (trim s) = None"
proof -
  assume h: "findCoord s = None"
  obtain a b where ab: "list_all isSpace a" "list_all isSpace b" "s = a @ trim s @ b"
    using trim_decomp by blast
  from h ab(3) have "findCoord (a @ trim s @ b) = None" by simp
  then show ?thesis using findCoord_None_spaces [OF ab(1,2)] by simp
qed

subsection \<open>The rewritten line\<close>

lemma replaceCoord_if: "(if testCoord s then replaceCoord s else s) = replaceCoord s"
  by (cases "findCoord s") (simp_all add: testCoord_def replaceCoord_def)

lemma rewriteLine_eq:
  "rewriteLine line newX newY = trimEnd (replaceCoord line) @ coordSuffix newX newY"
  by (simp add: rewriteLine_def replaceCoord_if)

lemma replaceCoord_Some: "findCoord s = Some (b, caps, r) \<Longrightarrow> replaceCoord s = b @ r"
  by (simp add: replaceCoord_def)

lemma lineCoords_Some:
  "findCoord s = Some (b, (c1, c2), r) \<Longrightarrow> lineCoords s = Some (parseInt c1, parseInt c2)"
  by (simp add: lineCoords_def)

lemma coordSuffix_of_int:
  "coordSuffix (of_int x) (of_int y) = '' ('' @ numberToString x @ '', '' @ numberToString y @ '')''"
  by (simp add: coordSuffix_def mathRound_of_int)

lemma trim_rewriteLine:
  assumes "trim (replaceCoord line) \<noteq> []"
  shows "trim (rewriteLine line newX newY) = trim (replaceCoord line) @ coordSuffix newX newY"
proof -
  let ?t = "trim (replaceCoord line)"
  obtain a b where ab: "list_all isSpace a" "list_all isSpace b" "replaceCoord line = a @ ?t @ b"
    using trim_decomp by blast
  have tt: "trimmed ?t" by (rule trimmed_trim)
  with assms have l: "\<not> isSpace (last ?t)" and h: "\<not> isSpace (hd ?t)" by (simp_all add: trimmed_def)
  have "trimEnd (replaceCoord line) = trimEnd ((a @ ?t) @ b)" using ab(3) by simp
  also have "\<dots> = trimEnd (a @ ?t)" using ab(2) by (rule trimEnd_spaces)
  also have "\<dots> = a @ ?t" using assms l by (intro trimEnd_last) simp_all
  finally have rw: "rewriteLine line newX newY = a @ (?t @ coordSuffix newX newY) @ []"
    by (simp add: rewriteLine_eq)
  have "trimmed (?t @ coordSuffix newX newY)"
    using assms h by (simp add: trimmed_def coordSuffix_def isSpace_def)
  then show ?thesis
    unfolding rw using ab(1) by (intro trim_unique) simp_all
qed

lemma rewriteLine_round_trip:
  assumes "trim (replaceCoord line) \<noteq> []" and "findCoord (replaceCoord line) = None"
  shows "lineCoords (trim (rewriteLine line (of_int x) (of_int y))) = Some (x, y)"
    and "trim (replaceCoord (trim (rewriteLine line (of_int x) (of_int y))))
         = trim (replaceCoord (trim line))"
proof -
  let ?t = "trim (replaceCoord line)"
  have none: "findCoord ?t = None" using assms(2) by (rule findCoord_None_trim)
  have tr: "trim (rewriteLine line (of_int x) (of_int y))
      = ?t @ '' ('' @ numberToString x @ '', '' @ numberToString y @ '')''"
    using trim_rewriteLine [OF assms(1)] by (simp add: coordSuffix_of_int)
  have fc: "findCoord (?t @ '' ('' @ numberToString x @ '', '' @ numberToString y @ '')'')
      = Some (?t @ '' '', (numberToString x, numberToString y), [])"
    using none by (rule findCoord_suffix)
  show "lineCoords (trim (rewriteLine line (of_int x) (of_int y))) = Some (x, y)"
    unfolding tr using lineCoords_Some [OF fc] by (simp only: parseInt_numberToString)
  have "replaceCoord (trim (rewriteLine line (of_int x) (of_int y))) = ?t @ '' ''"
    unfolding tr using replaceCoord_Some [OF fc] by (simp only: append_Nil2)
  moreover have "trim ([] @ ?t @ '' '') = ?t"
    by (intro trim_unique trimmed_trim) (simp_all add: isSpace_def)
  ultimately show "trim (replaceCoord (trim (rewriteLine line (of_int x) (of_int y))))
      = trim (replaceCoord (trim line))"
    by (simp add: trim_replaceCoord_trim)
qed

lemma commandOf_eq:
  "trim (replaceCoord (trim l1)) = trim (replaceCoord (trim l2)) \<Longrightarrow>
   commandOf l1 = commandOf l2 \<and> lineParts (trim l1) = lineParts (trim l2)"
  by (simp add: commandOf_def lineParts_def)

subsection \<open>The node of a declaration\<close>

lemma declareNode_nodeFor:
  "newNodes (declareNode sp st i xy parts command) =
     newNodes st @ [nodeFor st i parts command (fst (finalPos sp xy st))]"
  by (simp add: declareNode_newNodes nodeFor_def)

lemma declareSpec_specFor:
  "newNodes (declareSpec sp st i xy parts command) =
     newNodes st @ [specFor st i parts command (fst (finalPos sp xy st))]"
  by (simp add: declareSpec_def specFor_def specIdent_def specMeta_def Let_def finalPos_def
      getDefaultPos_def split: option.splits prod.splits)

lemma finalPos_Some: "fst (finalPos sp (Some p) st) = p"
  by (simp add: finalPos_def)

subsection \<open>A line within the document\<close>

lemma parseCode_line:
  assumes "i < length (splitLines code)"
  shows "set (newNodes (parseLine sp (forEachLine sp initialState (take i (splitLines code)) 0)
             (splitLines code ! i) i)) \<subseteq> set (nodes (parseCode sp code))"
    and "set (newLinks (parseLine sp (forEachLine sp initialState (take i (splitLines code)) 0)
             (splitLines code ! i) i)) \<subseteq> set (links (parseCode sp code))"
proof -
  let ?ls = "splitLines code"
  let ?st = "parseLine sp (forEachLine sp initialState (take i ?ls) 0) (?ls ! i) i"
  have fin: "forEachLine sp initialState ?ls 0 = forEachLine sp ?st (drop (Suc i) ?ls) (Suc i)"
    using forEachLine_split [OF assms, of sp initialState 0] by simp
  obtain ns where "newNodes (forEachLine sp ?st (drop (Suc i) ?ls) (Suc i)) = newNodes ?st @ ns"
    using forEachLine_newNodes by blast
  then show "set (newNodes ?st) \<subseteq> set (nodes (parseCode sp code))"
    by (simp add: parseCode_def fin)
  obtain ks where "newLinks (forEachLine sp ?st (drop (Suc i) ?ls) (Suc i)) = newLinks ?st @ ks"
    using forEachLine_newLinks by blast
  then show "set (newLinks ?st) \<subseteq> set (links (parseCode sp code))"
    by (simp add: parseCode_def fin)
qed

lemma initialState_newNodes: "newNodes initialState = []"
  by (simp add: initialState_def)

lemma node_of_line:
  assumes "n \<in> set (nodes (parseCode sp code))"
  shows "0 \<le> node_lineIndex n \<and> nat (node_lineIndex n) < length (splitLines code)
       \<and> n \<in> set (newNodes (parseLine sp
             (forEachLine sp initialState (take (nat (node_lineIndex n)) (splitLines code)) 0)
             (splitLines code ! nat (node_lineIndex n)) (nat (node_lineIndex n))))
       \<and> n \<notin> set (newNodes
             (forEachLine sp initialState (take (nat (node_lineIndex n)) (splitLines code)) 0))"
proof -
  let ?ls = "splitLines code"
  let ?i = "nat (node_lineIndex n)"
  obtain ns where ns: "newNodes (forEachLine sp initialState ?ls 0) = newNodes initialState @ ns"
    "\<forall>m \<in> set ns. int 0 \<le> node_lineIndex m \<and> node_lineIndex m < int (0 + length ?ls)"
    using forEachLine_newNodes by blast
  from assms ns have rng: "0 \<le> node_lineIndex n" "?i < length ?ls"
    by (auto simp: parseCode_def initialState_newNodes)
  let ?st0 = "forEachLine sp initialState (take ?i ?ls) 0"
  let ?st1 = "parseLine sp ?st0 (?ls ! ?i) ?i"
  have fin: "forEachLine sp initialState ?ls 0 = forEachLine sp ?st1 (drop (Suc ?i) ?ls) (Suc ?i)"
    using forEachLine_split [OF rng(2), of sp initialState 0] by simp
  obtain a where a: "newNodes ?st0 = newNodes initialState @ a"
    "\<forall>m \<in> set a. int 0 \<le> node_lineIndex m \<and> node_lineIndex m < int (0 + length (take ?i ?ls))"
    using forEachLine_newNodes by blast
  obtain b where b: "newNodes ?st1 = newNodes ?st0 @ b" "\<forall>m \<in> set b. node_lineIndex m = int ?i"
    using parseLine_newNodes by blast
  obtain c where c: "newNodes (forEachLine sp ?st1 (drop (Suc ?i) ?ls) (Suc ?i)) = newNodes ?st1 @ c"
    "\<forall>m \<in> set c. int (Suc ?i) \<le> node_lineIndex m
       \<and> node_lineIndex m < int (Suc ?i + length (drop (Suc ?i) ?ls))"
    using forEachLine_newNodes by blast
  from assms have "n \<in> set a \<union> set b \<union> set c"
    by (simp add: parseCode_def fin c(1) b(1) a(1) initialState_newNodes)
  moreover have "n \<notin> set a" using a(2) rng by auto
  moreover have "n \<notin> set c" using c(2) rng by auto
  ultimately have "n \<in> set b" by blast
  with b(1) a(1) \<open>n \<notin> set a\<close> rng show ?thesis
    by (simp add: initialState_newNodes)
qed

subsection \<open>The text after a write-back\<close>

lemma findCoord_Some:
  "findCoord s = Some (b, caps, r) \<Longrightarrow> \<exists>m. s = b @ m @ r \<and> coordText (fst caps) (snd caps) m"
proof (induction s arbitrary: b)
  case Nil
  then show ?case by simp
next
  case (Cons c cs)
  show ?case
  proof (cases "matchCoordAt (c # cs)")
    case None
    with Cons.prems obtain b' where b': "findCoord cs = Some (b', caps, r)" "b = c # b'"
      by auto
    from Cons.IH [OF b'(1)] b'(2) show ?thesis by auto
  next
    case (Some a)
    with Cons.prems have "b = []" "matchCoordAt (c # cs) = Some (caps, r)"
      by (auto split: prod.splits)
    then show ?thesis using matchCoordAt_Some [of "c # cs" "fst caps" "snd caps" r] by simp
  qed
qed

lemma set_replaceCoord: "set (replaceCoord s) \<subseteq> set s"
proof (cases "findCoord s")
  case None
  then show ?thesis by (simp add: replaceCoord_def)
next
  case (Some a)
  obtain b caps r where a: "a = (b, caps, r)" by (cases a)
  with Some obtain m where "s = b @ m @ r" using findCoord_Some by blast
  moreover have "replaceCoord s = b @ r" using Some a by (simp add: replaceCoord_def)
  ultimately show ?thesis by (metis Un_iff set_append subsetI)
qed

lemma isDigit_not_newline: "isDigit c \<Longrightarrow> c \<noteq> CHR 0x0A"
  by (auto simp: isDigit_def)

lemma coordSuffix_no_newline: "CHR 0x0A \<notin> set (coordSuffix newX newY)"
  using numberToString_chars isDigit_not_newline
  by (fastforce simp: coordSuffix_def)

lemma rewriteLine_no_newline:
  "CHR 0x0A \<notin> set line \<Longrightarrow> CHR 0x0A \<notin> set (rewriteLine line newX newY)"
  using set_trimEnd [of "replaceCoord line"] set_replaceCoord [of line]
    coordSuffix_no_newline [of newX newY]
  by (auto simp: rewriteLine_eq)

lemma splitLines_update:
  assumes "i < length (splitLines code)" and "CHR 0x0A \<notin> set l"
  shows "splitLines (joinLines ((splitLines code)[i := l])) = (splitLines code)[i := l]"
proof (rule splitLines_joinLines)
  show "(splitLines code)[i := l] \<noteq> []" using splitLines_not_Nil [of code] by simp
  show "\<forall>x \<in> set ((splitLines code)[i := l]). CHR 0x0A \<notin> set x"
    using assms(2) splitLines_no_newline [of _ code] set_update_subset_insert [of "splitLines code" i l]
    by auto
qed

lemma updateCodePosition_in_range:
  assumes "find (\<lambda>n. node_id n = nodeId) (ed_nodes ed) = Some node"
    and "0 \<le> node_lineIndex node"
    and "nat (node_lineIndex node) < length (splitLines (ed_code ed))"
  shows "updateCodePosition ed nodeId newX newY =
     ed\<lparr>ed_code := joinLines ((splitLines (ed_code ed))
            [nat (node_lineIndex node) :=
               rewriteLine (splitLines (ed_code ed) ! nat (node_lineIndex node)) newX newY])\<rparr>"
  using assms by (simp add: updateCodePosition_def Let_def)

lemma splitLines_updateCodePosition:
  assumes "find (\<lambda>n. node_id n = nodeId) (ed_nodes ed) = Some node"
    and "0 \<le> node_lineIndex node"
    and "nat (node_lineIndex node) < length (splitLines (ed_code ed))"
  shows "splitLines (ed_code (updateCodePosition ed nodeId newX newY)) =
     (splitLines (ed_code ed))
       [nat (node_lineIndex node) :=
          rewriteLine (splitLines (ed_code ed) ! nat (node_lineIndex node)) newX newY]"
proof -
  let ?ls = "splitLines (ed_code ed)"
  let ?i = "nat (node_lineIndex node)"
  have "CHR 0x0A \<notin> set (?ls ! ?i)"
    using assms(3) splitLines_no_newline [of "?ls ! ?i" "ed_code ed"] by simp
  then have "CHR 0x0A \<notin> set (rewriteLine (?ls ! ?i) newX newY)"
    by (rule rewriteLine_no_newline)
  with assms(3) have "splitLines (joinLines (?ls[?i := rewriteLine (?ls ! ?i) newX newY]))
      = ?ls[?i := rewriteLine (?ls ! ?i) newX newY]"
    by (rule splitLines_update)
  then show ?thesis by (simp add: updateCodePosition_in_range [OF assms])
qed

lemma commandOf_not_Nil:
  assumes "commandOf line \<noteq> []"
  shows "trim (replaceCoord line) \<noteq> []"
proof
  assume "trim (replaceCoord line) = []"
  then have "trim (replaceCoord (trim line)) = []" by (simp add: trim_replaceCoord_trim)
  then have "commandOf line = []"
    by (simp add: commandOf_def lineParts_def splitSpaces.simps elemAt_def interpolate_def
        toLowerCase_def)
  with assms show False by simp
qed

lemma nodeFor_same: "n = nodeFor st i parts command pos \<Longrightarrow>
    nodeFor st i parts command (node_x n, node_y n) = n"
  by (simp add: nodeFor_def)

lemma specFor_same: "n = specFor st i parts command pos \<Longrightarrow>
    specFor st i parts command (node_x n, node_y n) = n"
  by (simp add: specFor_def)

lemma rewritten_line_node:
  assumes "n \<in> set (newNodes (parseLine sp st line i))" and "n \<notin> set (newNodes st)"
    and "findCoord (replaceCoord line) = None"
  shows "n \<in> set (newNodes (parseLine sp st
            (rewriteLine line (of_int (node_x n)) (of_int (node_y n))) i))"
proof (cases rule: parseLine_cases [of sp st line i])
  case none
  with assms(1,2) show ?thesis by simp
next
  case link
  with assms(1,2) show ?thesis by (simp add: declareLink_newNodes)
next
  case node
  let ?l' = "rewriteLine line (of_int (node_x n)) (of_int (node_y n))"
  from node(1) have "commandOf line \<noteq> []" by (auto simp: nodeCommands_def)
  then have ne: "trim (replaceCoord line) \<noteq> []" by (rule commandOf_not_Nil)
  note rt = rewriteLine_round_trip [OF ne assms(3), of "node_x n" "node_y n"]
  from commandOf_eq [OF rt(2)] have same: "commandOf ?l' = commandOf line"
    "lineParts (trim ?l') = lineParts (trim line)" by simp_all
  from assms(1,2) node(2) have
    "n = nodeFor st i (lineParts (trim line)) (commandOf line)
           (fst (finalPos sp (lineCoords (trim line)) st))"
    by (simp add: declareNode_nodeFor)
  then have "nodeFor st i (lineParts (trim line)) (commandOf line) (node_x n, node_y n) = n"
    by (rule nodeFor_same)
  moreover have "parseLine sp st ?l' i =
      declareNode sp st i (Some (node_x n, node_y n)) (lineParts (trim line)) (commandOf line)"
    using parseLine_node [of ?l' sp st i] node(1) same rt(1) by simp
  ultimately show ?thesis by (simp add: declareNode_nodeFor finalPos_Some)
next
  case spec
  let ?l' = "rewriteLine line (of_int (node_x n)) (of_int (node_y n))"
  from spec(1) have "commandOf line \<noteq> []" by (auto simp: structuralCommands_def)
  then have ne: "trim (replaceCoord line) \<noteq> []" by (rule commandOf_not_Nil)
  note rt = rewriteLine_round_trip [OF ne assms(3), of "node_x n" "node_y n"]
  from commandOf_eq [OF rt(2)] have same: "commandOf ?l' = commandOf line"
    "lineParts (trim ?l') = lineParts (trim line)" by simp_all
  from assms(1,2) spec(2) have
    "n = specFor st i (lineParts (trim line)) (commandOf line)
           (fst (finalPos sp (lineCoords (trim line)) st))"
    by (simp add: declareSpec_specFor)
  then have "specFor st i (lineParts (trim line)) (commandOf line) (node_x n, node_y n) = n"
    by (rule specFor_same)
  moreover have "parseLine sp st ?l' i =
      declareSpec sp st i (Some (node_x n, node_y n)) (lineParts (trim line)) (commandOf line)"
    using parseLine_spec [of ?l' sp st i] spec(1) same rt(1) by simp
  ultimately show ?thesis by (simp add: declareSpec_specFor finalPos_Some)
qed

lemma reparse_fields:
  "ed_code (reparse sp ed) = ed_code ed"
  "ed_nodes (reparse sp ed) = nodes (parseCode sp (ed_code ed))"
  "ed_links (reparse sp ed) = links (parseCode sp (ed_code ed))"
  by (simp_all add: reparse_def Let_def)

subsection \<open>The parser and the write-back on examples\<close>

lemma lenientCode_lines:
  "splitLines lenientCode = [''ent A (1, 2)'', ''entity B -> A (3, 4)'', ''link A A'']"
  by (simp add: lenientCode_def)

lemma lenientCode_blanked:
  "parseCode sp (joinLines [''ent A (1, 2)'', [], ''link A A'']) =
     \<lparr>nodes = [\<lparr>node_id = Some ''A'', node_type = entity, node_label = Some ''A'',
                node_x = 1, node_y = 2, node_meta = None, node_lineIndex = 0\<rparr>],
      links = [\<lparr>link_source = Some ''A'', link_target = Some ''A'', link_label = [],
                link_style = solid\<rparr>]\<rparr>"
  by code_simp

lemma parse_plain_link:
  "parseCode sp ''link A B \"1\"'' =
     \<lparr>nodes = [],
      links = [\<lparr>link_source = Some ''A'', link_target = Some ''B'', link_label = ''1'',
                link_style = solid\<rparr>]\<rparr>"
  by code_simp

lemma parse_total_in_label:
  "parseCode sp ''link A B \"[total]\"'' =
     \<lparr>nodes = [],
      links = [\<lparr>link_source = Some ''A'', link_target = Some ''B'', link_label = ''[total]'',
                link_style = double\<rparr>]\<rparr>"
  by code_simp

lemma parse_duplicate_ids:
  "map node_id (nodes (parseCode sp (joinLines [''ent X_2'', ''ent X'', ''ent X'']))) =
     [Some ''X_2'', Some ''X'', Some ''X_2'']"
  by code_simp

lemma parse_ent_alone:
  "parseCode sp ''ent'' =
     \<lparr>nodes = [\<lparr>node_id = None, node_type = entity, node_label = None,
                node_x = fst (sp 1), node_y = snd (sp 1), node_meta = None,
                node_lineIndex = 0\<rparr>],
      links = []\<rparr>"
  by code_simp

lemma parse_dangling_link:
  "parseCode sp ''link GHOST REAL \"1\"'' =
     \<lparr>nodes = [],
      links = [\<lparr>link_source = Some ''GHOST'', link_target = Some ''REAL'', link_label = ''1'',
                link_style = solid\<rparr>]\<rparr>"
  by code_simp

lemma ghostCode_lines: "splitLines ghostCode = [''ent REAL (1, 2)'', ''link GHOST REAL'']"
  by (simp add: ghostCode_def)

subsection \<open>Ids of attributes\<close>

lemma last_segment:
  assumes "c \<notin> set d"
  shows "takeWhile (\<lambda>z. z \<noteq> c) (rev (a @ c # d)) = rev d"
proof -
  have "takeWhile (\<lambda>z. z \<noteq> c) (rev d @ c # rev a) = rev d @ takeWhile (\<lambda>z. z \<noteq> c) (c # rev a)"
    using assms by (intro takeWhile_append2) auto
  then show ?thesis by simp
qed

lemma number_suffix_unique:
  assumes "a @ ''_'' @ digitsOf i = b @ ''_'' @ digitsOf j"
  shows "i = j"
proof -
  have u: "\<And>k. CHR ''_'' \<notin> set (digitsOf k)"
    using digitsOf_digits by (auto simp: isDigit_def)
  from assms have "rev (a @ CHR ''_'' # digitsOf i) = rev (b @ CHR ''_'' # digitsOf j)" by simp
  then have "takeWhile (\<lambda>z. z \<noteq> CHR ''_'') (rev (a @ CHR ''_'' # digitsOf i))
      = takeWhile (\<lambda>z. z \<noteq> CHR ''_'') (rev (b @ CHR ''_'' # digitsOf j))"
    by (rule arg_cong)
  then have "rev (digitsOf i) = rev (digitsOf j)"
    by (simp only: last_segment [OF u])
  then have "parseDigits (digitsOf i) = parseDigits (digitsOf j)" by simp
  then show ?thesis by (simp only: parseDigits_digitsOf)
qed

lemma numberToString_index: "numberToString (int i) = digitsOf i"
  by (simp add: numberToString_def)

lemma attribute_is_node_command: "c \<in> set attributeCommands \<Longrightarrow> c \<in> set nodeCommands"
  by (auto simp: attributeCommands_def nodeCommands_def)

lemma attribute_line_node:
  assumes "i < length (splitLines code)"
    and "commandOf (splitLines code ! i) \<in> set attributeCommands"
    and "n \<in> set (nodes (parseCode sp code))" and "node_lineIndex n = int i"
  shows "node_id n = Some (interpolate (elemAt (lineParts (trim (splitLines code ! i))) 1)
           @ ''_'' @ numberToString (int i))"
proof -
  let ?st = "forEachLine sp initialState (take i (splitLines code)) 0"
  from node_of_line [OF assms(3)] assms(4)
  have inl: "n \<in> set (newNodes (parseLine sp ?st (splitLines code ! i) i))"
    and old: "n \<notin> set (newNodes ?st)" by simp_all
  have "parseLine sp ?st (splitLines code ! i) i =
      declareNode sp ?st i (lineCoords (trim (splitLines code ! i)))
        (lineParts (trim (splitLines code ! i))) (commandOf (splitLines code ! i))"
    using assms(2) by (intro parseLine_node attribute_is_node_command)
  with inl old have "n = nodeFor ?st i (lineParts (trim (splitLines code ! i)))
      (commandOf (splitLines code ! i))
      (fst (finalPos sp (lineCoords (trim (splitLines code ! i))) ?st))"
    by (simp add: declareNode_nodeFor)
  then have "node_id n = resolvedId ?st i (lineParts (trim (splitLines code ! i)))
      (commandOf (splitLines code ! i))"
    by (simp add: nodeFor_def)
  with assms(2) show ?thesis by (simp add: resolvedId_def)
qed

lemma attribute_line_declares:
  assumes "i < length (splitLines code)"
    and "commandOf (splitLines code ! i) \<in> set attributeCommands"
  shows "\<exists>n \<in> set (nodes (parseCode sp code)). node_lineIndex n = int i"
proof -
  let ?st = "forEachLine sp initialState (take i (splitLines code)) 0"
  let ?n = "nodeFor ?st i (lineParts (trim (splitLines code ! i)))
      (commandOf (splitLines code ! i))
      (fst (finalPos sp (lineCoords (trim (splitLines code ! i))) ?st))"
  have "parseLine sp ?st (splitLines code ! i) i =
      declareNode sp ?st i (lineCoords (trim (splitLines code ! i)))
        (lineParts (trim (splitLines code ! i))) (commandOf (splitLines code ! i))"
    using assms(2) by (intro parseLine_node attribute_is_node_command)
  then have "?n \<in> set (newNodes (parseLine sp ?st (splitLines code ! i) i))"
    by (simp add: declareNode_nodeFor)
  with parseCode_line(1) [OF assms(1), of sp] have "?n \<in> set (nodes (parseCode sp code))"
    by blast
  moreover have "node_lineIndex ?n = int i" by (simp add: nodeFor_def)
  ultimately show ?thesis by blast
qed

lemma attributeCode_lines:
  "splitLines attributeCode =
     [''ent A (1, 2)'', ''att Name -> A (3, 4)'', ''ent B (5, 6)'', ''key_att Name -> B'']"
  by (simp add: attributeCode_def)

subsection \<open>The round trip on examples\<close>

lemma twoCoords_parsed:
  "ed_nodes (reparse sp twoCoordsEditor) =
     [\<lparr>node_id = Some ''A'', node_type = entity, node_label = Some ''A'', node_x = 1, node_y = 2,
       node_meta = None, node_lineIndex = 0\<rparr>]"
  by code_simp

lemma twoCoords_written:
  "ed_code (updateCodePosition (reparse sp twoCoordsEditor) (Some ''A'') 1 2) =
     ''ent A  (3, 4) (1, 2)''"
  by code_simp

lemma twoCoords_reparsed:
  "ed_nodes (reparse sp (updateCodePosition (reparse sp twoCoordsEditor) (Some ''A'') 1 2)) =
     [\<lparr>node_id = Some ''A'', node_type = entity, node_label = Some ''A'', node_x = 3, node_y = 4,
       node_meta = None, node_lineIndex = 0\<rparr>]"
  by code_simp

lemma roundTrip_lookup:
  "find (\<lambda>m. node_id m = node_id nameNode) (ed_nodes (reparse sp roundTripEditor)) = Some nameNode"
  by code_simp

lemma roundTrip_line:
  "findCoord (replaceCoord (splitLines (ed_code roundTripEditor) ! nat (node_lineIndex nameNode)))
     = None"
  by code_simp

lemma roundTrip_written:
  "ed_code (updateCodePosition (reparse sp roundTripEditor) (node_id nameNode)
      (of_int (node_x nameNode)) (of_int (node_y nameNode))) =
     joinLines [''ent A (10, 20)'', ''  att Name -> A (5, -7)'', ''ent B'']"
  by code_simp

subsection \<open>Calls of the spiral\<close>

lemma declareNode_angle:
  "angle (declareNode sp st i xy parts command) = angle st + (if xy = None then 1 else 0)"
  by (simp add: declareNode_def Let_def finalPos_def getDefaultPos_def
      split: option.splits prod.splits)

lemma declareSpec_angle:
  "angle (declareSpec sp st i xy parts command) = angle st + (if xy = None then 1 else 0)"
  by (simp add: declareSpec_def Let_def finalPos_def getDefaultPos_def
      split: option.splits prod.splits)

lemma declareLink_angle: "angle (declareLink st lwc parts) = angle st"
  by (simp add: declareLink_def Let_def)

lemma parseLine_angle:
  "angle (parseLine sp st line i) = angle st + (if needsDefault line then 1 else 0)"
proof (cases "commandOf line \<in> set nodeCommands")
  case True
  then show ?thesis by (simp add: parseLine_node declareNode_angle needsDefault_def)
next
  case False
  note notNode = this
  show ?thesis
  proof (cases "commandOf line \<in> set structuralCommands")
    case True
    then show ?thesis by (simp add: parseLine_spec declareSpec_angle needsDefault_def)
  next
    case False
    show ?thesis
    proof (cases "commandOf line = ''link''")
      case True
      with notNode False show ?thesis
        by (simp add: parseLine_link declareLink_angle needsDefault_def)
    next
      case False
      with notNode \<open>commandOf line \<notin> set structuralCommands\<close>
      have "commandOf line \<notin> set recognizedCommands" by (simp add: recognizedCommands_def)
      then have "parseLine sp st line i = st" by (rule parseLine_unrecognized)
      with notNode \<open>commandOf line \<notin> set structuralCommands\<close> show ?thesis
        by (simp add: needsDefault_def)
    qed
  qed
qed

lemma forEachLine_angle:
  "angle (forEachLine sp st ls k) = angle st + length (filter needsDefault ls)"
  by (induction ls arbitrary: st k) (simp_all add: parseLine_angle)

lemma finalPos_None: "fst (finalPos sp None st) = sp (Suc (angle st))"
  by (simp add: finalPos_def getDefaultPos_def Let_def)

lemma default_placed_node:
  assumes "i < length (splitLines code)" and "needsDefault (splitLines code ! i)"
  shows "\<exists>n \<in> set (nodes (parseCode sp code)). node_lineIndex n = int i
       \<and> (node_x n, node_y n) = sp (Suc (length (filter needsDefault (take i (splitLines code)))))"
proof -
  let ?line = "splitLines code ! i"
  let ?st = "forEachLine sp initialState (take i (splitLines code)) 0"
  have a: "angle ?st = length (filter needsDefault (take i (splitLines code)))"
    by (simp add: forEachLine_angle initialState_def)
  from assms(2) have xy: "lineCoords (trim ?line) = None"
    and c: "commandOf ?line \<in> set nodeCommands \<or> commandOf ?line \<in> set structuralCommands"
    by (auto simp: needsDefault_def)
  from c show ?thesis
  proof
    assume "commandOf ?line \<in> set nodeCommands"
    then have "newNodes (parseLine sp ?st ?line i) =
        newNodes ?st @ [nodeFor ?st i (lineParts (trim ?line)) (commandOf ?line) (sp (Suc (angle ?st)))]"
      by (simp add: parseLine_node declareNode_nodeFor xy finalPos_None)
    then have "nodeFor ?st i (lineParts (trim ?line)) (commandOf ?line) (sp (Suc (angle ?st)))
        \<in> set (nodes (parseCode sp code))"
      using parseCode_line(1) [OF assms(1), of sp] by auto
    then show ?thesis unfolding a
      by (rule bexI [rotated]) (simp add: nodeFor_def)
  next
    assume "commandOf ?line \<in> set structuralCommands"
    then have "newNodes (parseLine sp ?st ?line i) =
        newNodes ?st @ [specFor ?st i (lineParts (trim ?line)) (commandOf ?line) (sp (Suc (angle ?st)))]"
      by (simp add: parseLine_spec declareSpec_specFor xy finalPos_None)
    then have "specFor ?st i (lineParts (trim ?line)) (commandOf ?line) (sp (Suc (angle ?st)))
        \<in> set (nodes (parseCode sp code))"
      using parseCode_line(1) [OF assms(1), of sp] by auto
    then show ?thesis unfolding a
      by (rule bexI [rotated]) (simp add: specFor_def)
  qed
qed

lemma spiralCode_lines:
  "splitLines spiralCode = [''ent X'', ''ent Y (7, 8)'', ''// note'', ''spec d -> X'']"
  by (simp add: spiralCode_def)

lemma spiralCode_needsDefault:
  "needsDefault ''ent X''" "\<not> needsDefault ''ent Y (7, 8)''" "\<not> needsDefault ''// note''"
  "needsDefault ''spec d -> X''"
  by code_simp+

subsection \<open>Occurrence of a substring, and rounding\<close>

lemma startsWith_iff: "startsWith s p \<longleftrightarrow> (\<exists>b. s = p @ b)"
proof
  assume "startsWith s p"
  then have "s = p @ drop (length p) s"
    by (metis append_take_drop_id startsWith_def)
  then show "\<exists>b. s = p @ b" ..
next
  assume "\<exists>b. s = p @ b"
  then show "startsWith s p" by (auto simp: startsWith_def)
qed

lemma includesStr_iff: "includesStr s p \<longleftrightarrow> (\<exists>a b. s = a @ p @ b)"
proof (induction s)
  case Nil
  then show ?case by auto
next
  case (Cons c cs)
  show ?case
  proof
    assume "includesStr (c # cs) p"
    then have "startsWith (c # cs) p \<or> includesStr cs p" by simp
    then show "\<exists>a b. c # cs = a @ p @ b"
    proof
      assume "startsWith (c # cs) p"
      then obtain b where "c # cs = p @ b" unfolding startsWith_iff by blast
      then have "c # cs = [] @ p @ b" by simp
      then show ?thesis by blast
    next
      assume "includesStr cs p"
      then obtain a b where "cs = a @ p @ b" using Cons.IH by blast
      then have "c # cs = (c # a) @ p @ b" by simp
      then show ?thesis by blast
    qed
  next
    assume "\<exists>a b. c # cs = a @ p @ b"
    then obtain a b where ab: "c # cs = a @ p @ b" by blast
    show "includesStr (c # cs) p"
    proof (cases a)
      case Nil
      with ab have "startsWith (c # cs) p" unfolding startsWith_iff by auto
      then show ?thesis by simp
    next
      case (Cons a0 a')
      with ab have "cs = a' @ p @ b" by simp
      then have "includesStr cs p" using Cons.IH by blast
      then show ?thesis by simp
    qed
  qed
qed

lemma mathRound_nearest:
  "v - 1 / 2 < real_of_int (mathRound v) \<and> real_of_int (mathRound v) \<le> v + 1 / 2"
  unfolding mathRound_def by linarith

section \<open>The claims\<close>

subsection \<open>C1: a position written back unchanged is read back\<close>

text \<open>
  Claim C1 asks that, for every document and every node of its parse, writing the node's
  own parsed \<open>(x, y)\<close> back to its line and parsing again gives a node of the same line with
  the same \<open>(x, y)\<close>. The code does this under three conditions. The write-back finds a node
  by its id, so the id has to resolve to the node at hand: then the line rewritten is the
  node's own. The line of the node, once its first coordinate pair is removed, must hold no
  further text of the form \<open>(int, int)\<close>: the parser reads the leftmost pair of a line and
  the write-back appends its pair at the end. The coordinates must be below \<open>2^53\<close> in
  magnitude, where JavaScript numbers are exact integers and print in decimal. Then the second
  parse has the very node of the first: same line, same \<open>x\<close> and \<open>y\<close>, and also the same id,
  kind and label.
\<close>

theorem write_back_round_trip:
  assumes "find (\<lambda>m. node_id m = node_id n) (ed_nodes (reparse sp ed)) = Some n"
    and "findCoord (replaceCoord (splitLines (ed_code ed) ! nat (node_lineIndex n))) = None"
    and "\<bar>node_x n\<bar> < 2 ^ 53" and "\<bar>node_y n\<bar> < 2 ^ 53"
  shows "n \<in> set (ed_nodes (reparse sp
           (updateCodePosition (reparse sp ed) (node_id n)
              (of_int (node_x n)) (of_int (node_y n)))))"
proof -
  let ?code = "ed_code ed"
  let ?ls = "splitLines ?code"
  let ?i = "nat (node_lineIndex n)"
  let ?l' = "rewriteLine (?ls ! ?i) (of_int (node_x n)) (of_int (node_y n))"
  let ?ed' = "updateCodePosition (reparse sp ed) (node_id n) (of_int (node_x n)) (of_int (node_y n))"
  let ?st = "forEachLine sp initialState (take ?i ?ls) 0"
  from assms(1) have "n \<in> set (nodes (parseCode sp ?code))"
    by (auto simp: find_Some_iff reparse_fields)
  from node_of_line [OF this] have rng: "0 \<le> node_lineIndex n" "?i < length ?ls"
    and inl: "n \<in> set (newNodes (parseLine sp ?st (?ls ! ?i) ?i))"
    and old: "n \<notin> set (newNodes ?st)"
    by simp_all
  have ls': "splitLines (ed_code ?ed') = ?ls[?i := ?l']"
    using splitLines_updateCodePosition [OF assms(1), of "of_int (node_x n)" "of_int (node_y n)"] rng
    by (simp add: reparse_fields)
  then have i': "?i < length (splitLines (ed_code ?ed'))" using rng(2) by simp
  have "n \<in> set (newNodes (parseLine sp ?st ?l' ?i))"
    using inl old assms(2) by (rule rewritten_line_node)
  moreover have "take ?i (?ls[?i := ?l']) = take ?i ?ls" by simp
  moreover have "?ls[?i := ?l'] ! ?i = ?l'" using rng(2) by simp
  ultimately have "n \<in> set (nodes (parseCode sp (ed_code ?ed')))"
    using parseCode_line(1) [OF i', of sp] unfolding ls' by auto
  then show ?thesis by (simp add: reparse_fields)
qed

text \<open>
  The theorem at work: the attribute of line 1 of a three-line document, declared with
  white space around it and with the coordinates \<open>(5, -7)\<close>.
\<close>

theorem write_back_round_trip_witness:
  "find (\<lambda>m. node_id m = node_id nameNode) (ed_nodes (reparse idealSpiral roundTripEditor))
     = Some nameNode
   \<and> findCoord (replaceCoord
         (splitLines (ed_code roundTripEditor) ! nat (node_lineIndex nameNode))) = None
   \<and> \<bar>node_x nameNode\<bar> < 2 ^ 53 \<and> \<bar>node_y nameNode\<bar> < 2 ^ 53
   \<and> nameNode \<in> set (ed_nodes (reparse idealSpiral
         (updateCodePosition (reparse idealSpiral roundTripEditor) (node_id nameNode)
            (of_int (node_x nameNode)) (of_int (node_y nameNode)))))"
proof -
  have x: "\<bar>node_x nameNode\<bar> < 2 ^ 53" and y: "\<bar>node_y nameNode\<bar> < 2 ^ 53"
    by (simp_all add: nameNode_def)
  from write_back_round_trip [OF roundTrip_lookup roundTrip_line x y, of idealSpiral]
  show ?thesis by (intro conjI roundTrip_lookup roundTrip_line x y)
qed

text \<open>
  Where the claim fails: the line \<open>ent A (1, 2) (3, 4)\<close> parses to a node at \<open>(1, 2)\<close>;
  writing \<open>(1, 2)\<close> back gives \<open>ent A  (3, 4) (1, 2)\<close>, and this line parses to a node at
  \<open>(3, 4)\<close>.
\<close>

theorem second_coordinate_breaks_round_trip:
  "ed_nodes (reparse idealSpiral twoCoordsEditor) =
     [\<lparr>node_id = Some ''A'', node_type = entity, node_label = Some ''A'', node_x = 1, node_y = 2,
       node_meta = None, node_lineIndex = 0\<rparr>]
   \<and> ed_code (updateCodePosition (reparse idealSpiral twoCoordsEditor) (Some ''A'') 1 2) =
       ''ent A  (3, 4) (1, 2)''
   \<and> ed_nodes (reparse idealSpiral
         (updateCodePosition (reparse idealSpiral twoCoordsEditor) (Some ''A'') 1 2)) =
       [\<lparr>node_id = Some ''A'', node_type = entity, node_label = Some ''A'', node_x = 3, node_y = 4,
         node_meta = None, node_lineIndex = 0\<rparr>]"
  by (intro conjI twoCoords_parsed twoCoords_written twoCoords_reparsed)

subsection \<open>C2: the write-back changes one line\<close>

text \<open>
  Claim C2: when the line index of the node is within the text, the write-back replaces
  that line by itself without its first coordinate pair, without white space at its end, and
  with \<open>" (" + round(x) + ", " + round(y) + ")"\<close> appended, where \<open>round\<close> gives the
  nearest integer, a tie going up; the text has the same lines as before at every other
  index, and the nodes and links on display are as they were. The rounded numbers are taken
  below \<open>2^53\<close> in magnitude, where the decimal digits are what the code prints.
\<close>

theorem updateCodePosition_frame:
  assumes "find (\<lambda>n. node_id n = nodeId) (ed_nodes ed) = Some node"
    and "0 \<le> node_lineIndex node"
    and "node_lineIndex node < int (length (splitLines (ed_code ed)))"
    and "\<bar>mathRound newX\<bar> < 2 ^ 53" and "\<bar>mathRound newY\<bar> < 2 ^ 53"
  shows "splitLines (ed_code (updateCodePosition ed nodeId newX newY)) =
           (splitLines (ed_code ed))
             [nat (node_lineIndex node) :=
                trimEnd (replaceCoord (splitLines (ed_code ed) ! nat (node_lineIndex node)))
                @ '' ('' @ numberToString (mathRound newX) @ '', ''
                @ numberToString (mathRound newY) @ '')'']
         \<and> newX - 1 / 2 < real_of_int (mathRound newX)
         \<and> real_of_int (mathRound newX) \<le> newX + 1 / 2
         \<and> newY - 1 / 2 < real_of_int (mathRound newY)
         \<and> real_of_int (mathRound newY) \<le> newY + 1 / 2
         \<and> ed_nodes (updateCodePosition ed nodeId newX newY) = ed_nodes ed
         \<and> ed_links (updateCodePosition ed nodeId newX newY) = ed_links ed"
proof -
  have i: "nat (node_lineIndex node) < length (splitLines (ed_code ed))"
    using assms(2,3) by simp
  show ?thesis
    using splitLines_updateCodePosition [OF assms(1,2) i, of newX newY]
      updateCodePosition_in_range [OF assms(1,2) i, of newX newY]
      mathRound_nearest [of newX] mathRound_nearest [of newY]
    by (simp add: rewriteLine_eq coordSuffix_def)
qed

text \<open>
  The theorem at work: a node of line 1 of three lines, moved to \<open>(99.4, -7.6)\<close>, which
  round down to 99 and to -8; the comment before the line and the declaration after it stay
  as they are.
\<close>

theorem updateCodePosition_frame_witness:
  "find (\<lambda>n. node_id n = Some ''A'') (ed_nodes sampleEditor) = Some (hd (ed_nodes sampleEditor))
   \<and> 0 \<le> node_lineIndex (hd (ed_nodes sampleEditor))
   \<and> node_lineIndex (hd (ed_nodes sampleEditor)) < int (length (splitLines (ed_code sampleEditor)))
   \<and> \<bar>mathRound (497 / 5)\<bar> < 2 ^ 53 \<and> \<bar>mathRound (- (38 / 5))\<bar> < 2 ^ 53
   \<and> mathRound (497 / 5) = 99 \<and> mathRound (- (38 / 5)) = - 8
   \<and> splitLines (ed_code (updateCodePosition sampleEditor (Some ''A'') (497 / 5) (- (38 / 5))))
       = [''// sample'', ''ent A (99, -8)'', ''ent B'']"
proof -
  have f: "find (\<lambda>n. node_id n = Some ''A'') (ed_nodes sampleEditor) = Some (hd (ed_nodes sampleEditor))"
    by (simp add: sampleEditor_def)
  have a: "0 \<le> node_lineIndex (hd (ed_nodes sampleEditor))"
    by (simp add: sampleEditor_def)
  have ls: "splitLines (ed_code sampleEditor) = [''// sample'', ''ent A (10, 20)  '', ''ent B'']"
    by (simp add: sampleEditor_def)
  have b: "node_lineIndex (hd (ed_nodes sampleEditor)) < int (length (splitLines (ed_code sampleEditor)))"
    unfolding ls by (simp add: sampleEditor_def)
  have i: "nat (node_lineIndex (hd (ed_nodes sampleEditor))) = 1"
    by (simp add: sampleEditor_def)
  have rx: "mathRound (497 / 5) = 99" and ry: "mathRound (- (38 / 5)) = - 8"
    by (simp_all add: mathRound_def)
  have bx: "\<bar>mathRound (497 / 5)\<bar> < 2 ^ 53" and by': "\<bar>mathRound (- (38 / 5))\<bar> < 2 ^ 53"
    unfolding rx ry by simp_all
  have t: "trimEnd (replaceCoord ''ent A (10, 20)  '') = ''ent A''"
    by code_simp
  have n: "numberToString 99 = ''99''" "numberToString (- 8) = ''-8''"
    by code_simp+
  from updateCodePosition_frame [OF f a b bx by', THEN conjunct1]
  have "splitLines (ed_code (updateCodePosition sampleEditor (Some ''A'') (497 / 5) (- (38 / 5))))
       = [''// sample'', ''ent A (99, -8)'', ''ent B'']"
    unfolding ls i rx ry by (simp add: t n)
  then show ?thesis by (intro conjI f a b bx by' rx ry)
qed

subsection \<open>C3: ids of nodes\<close>

text \<open>
  Claim C3 asks that the ids of the nodes of one parse are pairwise distinct. The parser
  appends the line index to a label that is taken, and does not look whether the result is
  taken in turn: in the document \<open>ent X_2\<close>, \<open>ent X\<close>, \<open>ent X\<close> the third line finds \<open>X\<close>
  taken and gets \<open>X_2\<close>, the id of the first line.
\<close>

theorem node_ids_not_distinct:
  "map node_id (nodes (parseCode idealSpiral (joinLines [''ent X_2'', ''ent X'', ''ent X'']))) =
     [Some ''X_2'', Some ''X'', Some ''X_2'']
   \<and> \<not> distinct (map node_id
          (nodes (parseCode idealSpiral (joinLines [''ent X_2'', ''ent X'', ''ent X'']))))"
  by (simp only: parse_duplicate_ids [of idealSpiral]) simp

subsection \<open>C4: links whose ends are no nodes\<close>

text \<open>
  Claim C4 asks that a link is kept only if both of its ends are ids of parsed nodes. The
  parser never compares a link with the nodes: a \<open>link\<close> statement that has a source and a
  target token has its link in the model, whatever the nodes are.
\<close>

theorem link_statement_retained:
  assumes "i < length (splitLines code)"
    and "commandOf (splitLines code ! i) = ''link''"
    and "truthy (elemAt (lineParts (trim (splitLines code ! i))) 1)"
    and "truthy (elemAt (lineParts (trim (splitLines code ! i))) 2)"
  shows "\<exists>l \<in> set (links (parseCode sp code)).
           link_source l = elemAt (lineParts (trim (splitLines code ! i))) 1
           \<and> link_target l = elemAt (lineParts (trim (splitLines code ! i))) 2"
proof -
  let ?line = "splitLines code ! i"
  let ?st = "forEachLine sp initialState (take i (splitLines code)) 0"
  let ?l = "\<lparr>link_source = elemAt (lineParts (trim ?line)) 1,
             link_target = elemAt (lineParts (trim ?line)) 2,
             link_label = (case matchLabel (trim (replaceCoord (trim ?line))) of
                             None \<Rightarrow> [] | Some l \<Rightarrow> l),
             link_style = (if includesStr (trim (replaceCoord (trim ?line))) ''[total]''
                              \<or> includesStr (trim (replaceCoord (trim ?line))) ''[double]''
                           then double else solid)\<rparr>"
  have "newLinks (parseLine sp ?st ?line i) = newLinks ?st @ [?l]"
    using assms(2-4) by (simp add: parseLine_link declareLink_newLinks)
  then have "?l \<in> set (newLinks (parseLine sp ?st ?line i))" by simp
  with parseCode_line(2) [OF assms(1), of sp] have "?l \<in> set (links (parseCode sp code))"
    by blast
  then show ?thesis by (intro bexI [of _ ?l]) simp_all
qed

text \<open>The theorem at work: the source \<open>GHOST\<close> of the link of line 1 is declared nowhere.\<close>

theorem link_statement_retained_witness:
  "1 < length (splitLines ghostCode)
   \<and> commandOf (splitLines ghostCode ! 1) = ''link''
   \<and> truthy (elemAt (lineParts (trim (splitLines ghostCode ! 1))) 1)
   \<and> truthy (elemAt (lineParts (trim (splitLines ghostCode ! 1))) 2)
   \<and> (\<exists>l \<in> set (links (parseCode idealSpiral ghostCode)).
         link_source l = Some ''GHOST'' \<and> link_target l = Some ''REAL'')"
proof -
  have n: "1 < length (splitLines ghostCode)" by (simp add: ghostCode_lines)
  have l: "splitLines ghostCode ! 1 = ''link GHOST REAL''" by (simp add: ghostCode_lines)
  have c: "commandOf (splitLines ghostCode ! 1) = ''link''" unfolding l by code_simp
  have p: "lineParts (trim (splitLines ghostCode ! 1)) = [''link'', ''GHOST'', ''REAL'']"
    unfolding l by code_simp
  have s: "truthy (elemAt (lineParts (trim (splitLines ghostCode ! 1))) 1)"
    unfolding p by code_simp
  have t: "truthy (elemAt (lineParts (trim (splitLines ghostCode ! 1))) 2)"
    unfolding p by code_simp
  have e: "elemAt [''link'', ''GHOST'', ''REAL''] 1 = Some ''GHOST''"
    "elemAt [''link'', ''GHOST'', ''REAL''] 2 = Some ''REAL''"
    by (simp_all add: elemAt_def)
  from link_statement_retained [OF n c s t, of idealSpiral] n c s t show ?thesis
    unfolding p e by simp
qed

text \<open>
  Where the claim fails: the document \<open>link GHOST REAL "1"\<close> has no node and one link.
\<close>

theorem dangling_link_retained:
  "parseCode idealSpiral ''link GHOST REAL \"1\"'' =
     \<lparr>nodes = [],
      links = [\<lparr>link_source = Some ''GHOST'', link_target = Some ''REAL'', link_label = ''1'',
                link_style = solid\<rparr>]\<rparr>"
  by (rule parse_dangling_link)

subsection \<open>C5: a line index outside the text\<close>

text \<open>
  Claim C5: when the line index of the node is negative or not below the number of lines,
  the write-back returns the state of the editor as it is: the text, and with it every line,
  is unchanged. The function has no other outcome, such as an exception.
\<close>

theorem updateCodePosition_out_of_range:
  assumes "find (\<lambda>n. node_id n = nodeId) (ed_nodes ed) = Some node"
    and "node_lineIndex node < 0 \<or> int (length (splitLines (ed_code ed))) \<le> node_lineIndex node"
  shows "updateCodePosition ed nodeId newX newY = ed"
  using assms by (auto simp: updateCodePosition_def Let_def)

text \<open>The theorem at work: a node of line 1 on display over a text of one line.\<close>

theorem updateCodePosition_out_of_range_witness:
  "find (\<lambda>n. node_id n = Some ''B'') (ed_nodes staleEditor) = Some (hd (ed_nodes staleEditor))
   \<and> int (length (splitLines (ed_code staleEditor))) \<le> node_lineIndex (hd (ed_nodes staleEditor))
   \<and> updateCodePosition staleEditor (Some ''B'') 99 5 = staleEditor"
proof -
  have f: "find (\<lambda>n. node_id n = Some ''B'') (ed_nodes staleEditor) = Some (hd (ed_nodes staleEditor))"
    by (simp add: staleEditor_def)
  have r: "node_lineIndex (hd (ed_nodes staleEditor)) < 0
      \<or> int (length (splitLines (ed_code staleEditor))) \<le> node_lineIndex (hd (ed_nodes staleEditor))"
    by (simp add: staleEditor_def)
  from updateCodePosition_out_of_range [OF f r, of 99 5] f r show ?thesis
    by (simp add: staleEditor_def)
qed

subsection \<open>C6: ids of attributes\<close>

text \<open>
  Claim C6: a line that declares an attribute (\<open>att\<close>, \<open>key_att\<close>, \<open>derived_att\<close>,
  \<open>multivalued_attribute\<close>) has a node in the model, and the id of a node of that line is
  the label, an underscore and the line index; hence the nodes of two such lines, for two
  different lines, have different ids, whatever their labels are.
\<close>

theorem attribute_ids:
  assumes "i < length (splitLines code)"
    and "commandOf (splitLines code ! i) \<in> set attributeCommands"
    and "j < length (splitLines code)"
    and "commandOf (splitLines code ! j) \<in> set attributeCommands"
  shows "(\<exists>n \<in> set (nodes (parseCode sp code)). node_lineIndex n = int i)
       \<and> (\<forall>n \<in> set (nodes (parseCode sp code)). node_lineIndex n = int i \<longrightarrow>
            node_id n = Some (interpolate (elemAt (lineParts (trim (splitLines code ! i))) 1)
              @ ''_'' @ numberToString (int i)))
       \<and> (i \<noteq> j \<longrightarrow>
            (\<forall>n \<in> set (nodes (parseCode sp code)). \<forall>m \<in> set (nodes (parseCode sp code)).
               node_lineIndex n = int i \<and> node_lineIndex m = int j \<longrightarrow> node_id n \<noteq> node_id m))"
proof (intro conjI impI ballI)
  show "\<exists>n \<in> set (nodes (parseCode sp code)). node_lineIndex n = int i"
    using assms(1,2) by (rule attribute_line_declares)
next
  fix n
  assume "n \<in> set (nodes (parseCode sp code))" "node_lineIndex n = int i"
  with assms(1,2) show "node_id n = Some (interpolate (elemAt (lineParts (trim (splitLines code ! i))) 1)
      @ ''_'' @ numberToString (int i))"
    by (rule attribute_line_node)
next
  fix n m
  assume ij: "i \<noteq> j" and n: "n \<in> set (nodes (parseCode sp code))"
    and m: "m \<in> set (nodes (parseCode sp code))"
    and l: "node_lineIndex n = int i \<and> node_lineIndex m = int j"
  from l have li: "node_lineIndex n = int i" and lj: "node_lineIndex m = int j" by simp_all
  show "node_id n \<noteq> node_id m"
  proof
    assume "node_id n = node_id m"
    with attribute_line_node [OF assms(1,2) n li] attribute_line_node [OF assms(3,4) m lj]
    have "interpolate (elemAt (lineParts (trim (splitLines code ! i))) 1) @ ''_'' @ digitsOf i
        = interpolate (elemAt (lineParts (trim (splitLines code ! j))) 1) @ ''_'' @ digitsOf j"
      by (simp add: numberToString_index)
    then have "i = j" by (rule number_suffix_unique)
    with ij show False by simp
  qed
qed

text \<open>The theorem at work: two attributes of the label \<open>Name\<close>, on lines 1 and 3.\<close>

theorem attribute_ids_witness:
  "1 < length (splitLines attributeCode)
   \<and> commandOf (splitLines attributeCode ! 1) \<in> set attributeCommands
   \<and> 3 < length (splitLines attributeCode)
   \<and> commandOf (splitLines attributeCode ! 3) \<in> set attributeCommands
   \<and> (\<exists>n \<in> set (nodes (parseCode idealSpiral attributeCode)).
        \<exists>m \<in> set (nodes (parseCode idealSpiral attributeCode)).
          node_lineIndex n = 1 \<and> node_lineIndex m = 3
          \<and> node_id n = Some ''Name_1'' \<and> node_id m = Some ''Name_3''
          \<and> node_id n \<noteq> node_id m)"
proof -
  have a: "1 < length (splitLines attributeCode)" and b: "3 < length (splitLines attributeCode)"
    by (simp_all add: attributeCode_lines)
  have l1: "splitLines attributeCode ! 1 = ''att Name -> A (3, 4)''"
    and l3: "splitLines attributeCode ! 3 = ''key_att Name -> B''"
    by (simp_all add: attributeCode_lines)
  have c1: "commandOf (splitLines attributeCode ! 1) \<in> set attributeCommands"
    unfolding l1 by code_simp
  have c3: "commandOf (splitLines attributeCode ! 3) \<in> set attributeCommands"
    unfolding l3 by code_simp
  have e1: "interpolate (elemAt (lineParts (trim (splitLines attributeCode ! 1))) 1)
      @ ''_'' @ numberToString (int 1) = ''Name_1''"
    unfolding l1 by code_simp
  have e3: "interpolate (elemAt (lineParts (trim (splitLines attributeCode ! 3))) 1)
      @ ''_'' @ numberToString (int 3) = ''Name_3''"
    unfolding l3 by code_simp
  have ne: "(1::nat) \<noteq> 3" by simp
  note t13 = attribute_ids [OF a c1 b c3, of idealSpiral, unfolded e1]
  note t31 = attribute_ids [OF b c3 a c1, of idealSpiral, unfolded e3]
  from t13 obtain n where n: "n \<in> set (nodes (parseCode idealSpiral attributeCode))"
    "node_lineIndex n = 1" by auto
  from t31 obtain m where m: "m \<in> set (nodes (parseCode idealSpiral attributeCode))"
    "node_lineIndex m = 3" by auto
  from t13 n have idn: "node_id n = Some ''Name_1''" by simp
  from t31 m have idm: "node_id m = Some ''Name_3''" by simp
  from t13 [THEN conjunct2, THEN conjunct2, THEN mp, OF ne] n m
  have "node_id n \<noteq> node_id m" by simp
  with n m idn idm
  have "\<exists>n \<in> set (nodes (parseCode idealSpiral attributeCode)).
        \<exists>m \<in> set (nodes (parseCode idealSpiral attributeCode)).
          node_lineIndex n = 1 \<and> node_lineIndex m = 3
          \<and> node_id n = Some ''Name_1'' \<and> node_id m = Some ''Name_3''
          \<and> node_id n \<noteq> node_id m"
    by blast
  with a c1 b c3 show ?thesis by (intro conjI)
qed

subsection \<open>C7: the parse is a function of the text\<close>

text \<open>
  Claim C7: two runs of the parser on the same text give the same nodes and the same links,
  whatever was on display before each run; and the positions off the spiral are fixed by
  the text, since a line that declares a node without coordinates gets the point of the
  spiral whose number is one more than the number of such lines before it.
\<close>

theorem parse_deterministic:
  assumes "ed_code ed1 = ed_code ed2"
  shows "ed_nodes (reparse sp ed1) = ed_nodes (reparse sp ed2)
       \<and> ed_links (reparse sp ed1) = ed_links (reparse sp ed2)
       \<and> (\<forall>i < length (splitLines (ed_code ed1)). needsDefault (splitLines (ed_code ed1) ! i) \<longrightarrow>
            (\<exists>n \<in> set (ed_nodes (reparse sp ed2)). node_lineIndex n = int i
               \<and> (node_x n, node_y n) =
                   sp (Suc (length (filter needsDefault (take i (splitLines (ed_code ed1))))))))"
  using assms default_placed_node [of _ "ed_code ed2" sp]
  by (simp add: reparse_fields)

text \<open>
  The theorem at work: a first run and a second run after it; line 3 is the second line
  without coordinates, and its node is at the second point of the spiral.
\<close>

theorem parse_deterministic_witness:
  "ed_code \<lparr>ed_code = spiralCode, ed_nodes = [], ed_links = []\<rparr>
     = ed_code (reparse idealSpiral \<lparr>ed_code = spiralCode, ed_nodes = [], ed_links = []\<rparr>)
   \<and> 3 < length (splitLines spiralCode) \<and> needsDefault (splitLines spiralCode ! 3)
   \<and> ed_nodes (reparse idealSpiral \<lparr>ed_code = spiralCode, ed_nodes = [], ed_links = []\<rparr>)
       = ed_nodes (reparse idealSpiral
           (reparse idealSpiral \<lparr>ed_code = spiralCode, ed_nodes = [], ed_links = []\<rparr>))
   \<and> (\<exists>n \<in> set (ed_nodes (reparse idealSpiral
           (reparse idealSpiral \<lparr>ed_code = spiralCode, ed_nodes = [], ed_links = []\<rparr>))).
         node_lineIndex n = 3 \<and> (node_x n, node_y n) = idealSpiral 2)"
proof -
  let ?ed = "\<lparr>ed_code = spiralCode, ed_nodes = [], ed_links = []\<rparr>"
  have c: "ed_code ?ed = ed_code (reparse idealSpiral ?ed)" by (simp add: reparse_fields)
  have l: "3 < length (splitLines spiralCode)" by (simp add: spiralCode_lines)
  have d: "needsDefault (splitLines spiralCode ! 3)"
    by (simp add: spiralCode_lines spiralCode_needsDefault)
  have k: "Suc (length (filter needsDefault (take 3 (splitLines spiralCode)))) = 2"
    by (simp add: spiralCode_lines spiralCode_needsDefault)
  note th = parse_deterministic [OF c, of idealSpiral]
  from th have n: "ed_nodes (reparse idealSpiral ?ed)
      = ed_nodes (reparse idealSpiral (reparse idealSpiral ?ed))"
    by (rule conjunct1)
  from th [THEN conjunct2, THEN conjunct2, rule_format, of 3] l d k
  have "\<exists>n \<in> set (ed_nodes (reparse idealSpiral (reparse idealSpiral ?ed))).
      node_lineIndex n = 3 \<and> (node_x n, node_y n) = idealSpiral 2"
    by simp
  with c l d n show ?thesis by (intro conjI)
qed

subsection \<open>C8: lines with an unknown command\<close>

text \<open>
  Claim C8: a line whose command (the first token of the line without its coordinates, in
  lower case) is none of the eleven commands leaves the state of the parser as it is, so that
  it adds no node and no link; and the parse of the document is the parse of the document
  with that line replaced by an empty line.
\<close>

theorem unrecognized_line_ignored:
  assumes "i < length (splitLines code)"
    and "commandOf (splitLines code ! i) \<notin> set recognizedCommands"
  shows "parseLine sp st (splitLines code ! i) i = st
       \<and> parseCode sp (joinLines ((splitLines code)[i := []])) = parseCode sp code"
proof -
  let ?ls = "splitLines code"
  have one: "\<And>st'. parseLine sp st' (?ls ! i) i = st'"
    using assms(2) by (rule parseLine_unrecognized)
  have "splitLines (joinLines (?ls[i := []])) = ?ls[i := []]"
    using assms(1) by (intro splitLines_update) simp_all
  moreover have "forEachLine sp initialState (?ls[i := []]) 0 = forEachLine sp initialState ?ls 0"
    using assms(1) by (intro forEachLine_update) (simp_all add: one parseLine_blank)
  ultimately show ?thesis by (simp add: parseCode_def one)
qed

text \<open>The theorem at work: \<open>entity\<close> is no command.\<close>

theorem unrecognized_line_ignored_witness:
  "1 < length (splitLines lenientCode)
   \<and> commandOf (splitLines lenientCode ! 1) \<notin> set recognizedCommands
   \<and> parseLine idealSpiral initialState (splitLines lenientCode ! 1) 1 = initialState
   \<and> parseCode idealSpiral lenientCode =
       \<lparr>nodes = [\<lparr>node_id = Some ''A'', node_type = entity, node_label = Some ''A'',
                  node_x = 1, node_y = 2, node_meta = None, node_lineIndex = 0\<rparr>],
        links = [\<lparr>link_source = Some ''A'', link_target = Some ''A'', link_label = [],
                  link_style = solid\<rparr>]\<rparr>"
proof -
  have l: "1 < length (splitLines lenientCode)" by (simp add: lenientCode_lines)
  have "commandOf ''entity B -> A (3, 4)'' \<notin> set recognizedCommands" by code_simp
  then have c: "commandOf (splitLines lenientCode ! 1) \<notin> set recognizedCommands"
    by (simp add: lenientCode_lines)
  from unrecognized_line_ignored [OF l c, of idealSpiral initialState] l c
    lenientCode_blanked [of idealSpiral]
  show ?thesis by (simp add: lenientCode_lines)
qed

subsection \<open>C9: a declaration without a label\<close>

text \<open>
  Claim C9 asks that a malformed statement, such as the line \<open>ent\<close> alone, adds no node and
  no link. The branch of the node commands reads \<open>parts[1]\<close> without looking whether it is
  there, unlike the branch of \<open>link\<close>, which needs both of its tokens, and the branch of
  \<open>spec\<close>, which has a default: the line \<open>ent\<close> adds a node whose id and label are
  \<open>undefined\<close>, at the first point of the spiral.
\<close>

theorem ent_without_label_declares_node:
  "parseCode idealSpiral ''ent'' =
     \<lparr>nodes = [\<lparr>node_id = None, node_type = entity, node_label = None,
                node_x = fst (idealSpiral 1), node_y = snd (idealSpiral 1), node_meta = None,
                node_lineIndex = 0\<rparr>],
      links = []\<rparr>"
  by (rule parse_ent_alone)

subsection \<open>C10: the marker of total participation\<close>

text \<open>
  Claim C10: a \<open>link\<close> statement with a source and a target adds one link, whose style is
  \<open>double\<close> exactly when the line without its coordinates is of the form \<open>a [total] b\<close> or
  \<open>a [double] b\<close> for some texts \<open>a\<close> and \<open>b\<close>, that is when one of the two markers
  occurs somewhere in it, and \<open>solid\<close> otherwise; the label is not set apart, so that
  \<open>link A B "[total]"\<close> gives one link with the label \<open>[total]\<close> and the style \<open>double\<close>,
  while \<open>link A B "1"\<close> gives a \<open>solid\<close> link.
\<close>

theorem link_style_by_substring:
  assumes "commandOf line = ''link''"
    and "truthy (elemAt (lineParts (trim line)) 1)"
    and "truthy (elemAt (lineParts (trim line)) 2)"
  shows "newLinks (parseLine sp st line i) =
           newLinks st @
           [\<lparr>link_source = elemAt (lineParts (trim line)) 1,
             link_target = elemAt (lineParts (trim line)) 2,
             link_label = (case matchLabel (trim (replaceCoord (trim line))) of
                             None \<Rightarrow> [] | Some l \<Rightarrow> l),
             link_style = (if (\<exists>a b. trim (replaceCoord (trim line)) = a @ ''[total]'' @ b)
                              \<or> (\<exists>a b. trim (replaceCoord (trim line)) = a @ ''[double]'' @ b)
                           then double else solid)\<rparr>]
       \<and> parseCode sp ''link A B \"[total]\"'' =
           \<lparr>nodes = [],
            links = [\<lparr>link_source = Some ''A'', link_target = Some ''B'',
                      link_label = ''[total]'', link_style = double\<rparr>]\<rparr>
       \<and> parseCode sp ''link A B \"1\"'' =
           \<lparr>nodes = [],
            links = [\<lparr>link_source = Some ''A'', link_target = Some ''B'',
                      link_label = ''1'', link_style = solid\<rparr>]\<rparr>"
  using assms
  by (simp only: parseLine_link declareLink_newLinks includesStr_iff parse_total_in_label
      parse_plain_link if_True simp_thms)

text \<open>
  The theorem at work: a marker outside the label, with a command in upper case, gives
  \<open>double\<close>; a label \<open>[Total]\<close>, which is neither marker, gives \<open>solid\<close>.
\<close>

theorem link_style_by_substring_witness:
  "commandOf ''Link EMPLOYEE REL \"N\" [total] (5, 6)'' = ''link''
   \<and> truthy (elemAt (lineParts (trim ''Link EMPLOYEE REL \"N\" [total] (5, 6)'')) 1)
   \<and> truthy (elemAt (lineParts (trim ''Link EMPLOYEE REL \"N\" [total] (5, 6)'')) 2)
   \<and> newLinks (parseLine idealSpiral initialState ''Link EMPLOYEE REL \"N\" [total] (5, 6)'' 0) =
       [\<lparr>link_source = Some ''EMPLOYEE'', link_target = Some ''REL'', link_label = ''N'',
         link_style = double\<rparr>]
   \<and> commandOf ''link DEPARTMENT REL \"[Total]\"'' = ''link''
   \<and> truthy (elemAt (lineParts (trim ''link DEPARTMENT REL \"[Total]\"'')) 1)
   \<and> truthy (elemAt (lineParts (trim ''link DEPARTMENT REL \"[Total]\"'')) 2)
   \<and> newLinks (parseLine idealSpiral initialState ''link DEPARTMENT REL \"[Total]\"'' 1) =
       [\<lparr>link_source = Some ''DEPARTMENT'', link_target = Some ''REL'', link_label = ''[Total]'',
         link_style = solid\<rparr>]"
proof -
  let ?l = "''Link EMPLOYEE REL \"N\" [total] (5, 6)''"
  let ?k = "''link DEPARTMENT REL \"[Total]\"''"
  have n: "newLinks initialState = []" by (simp add: initialState_def)
  have c: "commandOf ?l = ''link''" by code_simp
  have p: "lineParts (trim ?l) = [''Link'', ''EMPLOYEE'', ''REL'', ''\"N\"'', ''[total]'']"
    by code_simp
  have s: "truthy (elemAt (lineParts (trim ?l)) 1)" unfolding p by code_simp
  have t: "truthy (elemAt (lineParts (trim ?l)) 2)" unfolding p by code_simp
  have w: "trim (replaceCoord (trim ?l)) = ''Link EMPLOYEE REL \"N\" [total]''" by code_simp
  have m: "matchLabel ''Link EMPLOYEE REL \"N\" [total]'' = Some ''N''" by code_simp
  have "includesStr ''Link EMPLOYEE REL \"N\" [total]'' ''[total]''" by code_simp
  then have i: "\<exists>a b. ''Link EMPLOYEE REL \"N\" [total]'' = a @ ''[total]'' @ b"
    by (simp only: includesStr_iff)
  have e: "elemAt [''Link'', ''EMPLOYEE'', ''REL'', ''\"N\"'', ''[total]''] 1 = Some ''EMPLOYEE''"
    "elemAt [''Link'', ''EMPLOYEE'', ''REL'', ''\"N\"'', ''[total]''] 2 = Some ''REL''"
    by (simp_all add: elemAt_def)
  from link_style_by_substring [OF c s t, of idealSpiral initialState 0]
  have d: "newLinks (parseLine idealSpiral initialState ?l 0) =
      [\<lparr>link_source = Some ''EMPLOYEE'', link_target = Some ''REL'', link_label = ''N'',
        link_style = double\<rparr>]"
    by (simp only: p w m i e n append_Nil option.case if_True simp_thms)
  have c': "commandOf ?k = ''link''" by code_simp
  have p': "lineParts (trim ?k) = [''link'', ''DEPARTMENT'', ''REL'', ''\"[Total]\"'']"
    by code_simp
  have s': "truthy (elemAt (lineParts (trim ?k)) 1)" unfolding p' by code_simp
  have t': "truthy (elemAt (lineParts (trim ?k)) 2)" unfolding p' by code_simp
  have w': "trim (replaceCoord (trim ?k)) = ''link DEPARTMENT REL \"[Total]\"''" by code_simp
  have m': "matchLabel ''link DEPARTMENT REL \"[Total]\"'' = Some ''[Total]''" by code_simp
  have "\<not> includesStr ''link DEPARTMENT REL \"[Total]\"'' ''[total]''" by code_simp
  then have i1: "\<not> (\<exists>a b. ''link DEPARTMENT REL \"[Total]\"'' = a @ ''[total]'' @ b)"
    by (simp only: includesStr_iff simp_thms)
  have "\<not> includesStr ''link DEPARTMENT REL \"[Total]\"'' ''[double]''" by code_simp
  then have i2: "\<not> (\<exists>a b. ''link DEPARTMENT REL \"[Total]\"'' = a @ ''[double]'' @ b)"
    by (simp only: includesStr_iff simp_thms)
  have e': "elemAt [''link'', ''DEPARTMENT'', ''REL'', ''\"[Total]\"''] 1 = Some ''DEPARTMENT''"
    "elemAt [''link'', ''DEPARTMENT'', ''REL'', ''\"[Total]\"''] 2 = Some ''REL''"
    by (simp_all add: elemAt_def)
  from link_style_by_substring [OF c' s' t', of idealSpiral initialState 1]
  have d': "newLinks (parseLine idealSpiral initialState ?k 1) =
      [\<lparr>link_source = Some ''DEPARTMENT'', link_target = Some ''REL'', link_label = ''[Total]'',
        link_style = solid\<rparr>]"
    by (simp only: p' w' m' i1 i2 e' n append_Nil option.case if_False simp_thms)
  show ?thesis by (intro conjI c s t d c' s' t' d')
qed

end
